theory Spec2Isabelle
  imports Main "HOL-Library.Multiset" "HOL-Library.Sublist" "HOL-Library.AList"
begin

section \<open>Strings and the regular expressions of main.ts\<close>

text \<open>
  A JavaScript string is modelled as a \<^typ>\<open>string\<close>: a list of code units, each below 256.
  The notices of the plugin (some of them Japanese text) are not spelled out as strings: each
  message template of the source is a constructor of the datatype \<open>notice\<close> below, its
  interpolated parts the constructor's arguments.
\<close>

type_synonym path = string

definition backslash :: char where
  "backslash = CHR 0x5C"

definition blank_line :: string where
  \<comment> \<open>the literal \<^verbatim>\<open>"\n\n"\<close>\<close>
  "blank_line = [CHR 0x0A, CHR 0x0A]"

definition is_line_terminator :: "char \<Rightarrow> bool" where
  \<comment> \<open>what \<^verbatim>\<open>.\<close> of a regular expression does not match: LF and CR\<close>
  "is_line_terminator c \<longleftrightarrow> c = CHR 0x0A \<or> c = CHR 0x0D"

definition is_white_space :: "char \<Rightarrow> bool" where
  \<comment> \<open>\<^verbatim>\<open>\s\<close> and the characters \<^verbatim>\<open>trim()\<close> strips: TAB, LF, VT, FF, CR, SP, NBSP\<close>
  "is_white_space c \<longleftrightarrow>
     c \<in> set [CHR 0x09, CHR 0x0A, CHR 0x0B, CHR 0x0C, CHR 0x0D, CHR 0x20, CHR 0xA0]"

definition trim :: "string \<Rightarrow> string" where
  "trim s = rev (dropWhile is_white_space (rev (dropWhile is_white_space s)))"

definition endsWith :: "string \<Rightarrow> string \<Rightarrow> bool" where
  "endsWith s t \<longleftrightarrow> take (length t) (rev s) = rev t"

definition same_letter :: "char \<Rightarrow> char \<Rightarrow> char \<Rightarrow> bool" where
  \<comment> \<open>a letter of the pattern under the flag \<^verbatim>\<open>i\<close>: the subject holds its lower-case or
      its upper-case form\<close>
  "same_letter c lower upper \<longleftrightarrow> c = lower \<or> c = upper"

fun jpg_suffix :: "string \<Rightarrow> bool" where
  \<comment> \<open>the rest of the subject matches \<^verbatim>\<open>\.(jpg|jpeg)$\<close> under the flag \<^verbatim>\<open>i\<close>\<close>
  "jpg_suffix [c0, c1, c2, c3] \<longleftrightarrow>
     c0 = CHR ''.'' \<and> same_letter c1 CHR ''j'' CHR ''J'' \<and> same_letter c2 CHR ''p'' CHR ''P''
       \<and> same_letter c3 CHR ''g'' CHR ''G''"
| "jpg_suffix [c0, c1, c2, c3, c4] \<longleftrightarrow>
     c0 = CHR ''.'' \<and> same_letter c1 CHR ''j'' CHR ''J'' \<and> same_letter c2 CHR ''p'' CHR ''P''
       \<and> same_letter c3 CHR ''e'' CHR ''E'' \<and> same_letter c4 CHR ''g'' CHR ''G''"
| "jpg_suffix _ \<longleftrightarrow> False"

fun strip_jpg_suffix :: "string \<Rightarrow> string" where
  \<comment> \<open>\<^verbatim>\<open>originalId.replace(/\.(jpg|jpeg)$/i, '')\<close>: the first position where the pattern
      matches is replaced by the empty string\<close>
  "strip_jpg_suffix [] = []"
| "strip_jpg_suffix (c # cs) = (if jpg_suffix (c # cs) then [] else c # strip_jpg_suffix cs)"

definition forward_slashes :: "string \<Rightarrow> string" where
  \<comment> \<open>\<^verbatim>\<open>imageFilePath.replace(/\\/g, '/')\<close>\<close>
  "forward_slashes s = map (\<lambda>c. if c = backslash then CHR ''/'' else c) s"

definition data_uri_body :: "string \<Rightarrow> string option" where
  \<comment> \<open>\<^verbatim>\<open>base64.match(/^data:image\/jpeg;base64,(.+)/)\<close>: group 1 when the match succeeds\<close>
  "data_uri_body s =
     (if prefix ''data:image/jpeg;base64,'' s
      then (let body = takeWhile (\<lambda>c. \<not> is_line_terminator c)
                         (drop (length ''data:image/jpeg;base64,'') s)
            in if body = [] then None else Some body)
      else None)"

fun GetSubstitution :: "string \<Rightarrow> string \<Rightarrow> string \<Rightarrow> string \<Rightarrow> string" where
  \<comment> \<open>the replacement text that \<^verbatim>\<open>String.prototype.replace\<close> builds from a replacement
      string, for a match without capture groups: arguments are the matched text, the subject
      before the match, the subject after the match, and the replacement string\<close>
  "GetSubstitution m b a [] = []"
| "GetSubstitution m b a [c] = [c]"
| "GetSubstitution m b a (c # d # r) =
     (if c = CHR ''$'' then
        (if d = CHR ''$'' then CHR ''$'' # GetSubstitution m b a r
         else if d = CHR ''&'' then m @ GetSubstitution m b a r
         else if d = CHR 0x60 then b @ GetSubstitution m b a r
         else if d = CHR 0x27 then a @ GetSubstitution m b a r
         else c # GetSubstitution m b a (d # r))
      else c # GetSubstitution m b a (d # r))"

fun lazy_until_close :: "string \<Rightarrow> string option" where
  \<comment> \<open>\<^verbatim>\<open>(?:.*?)\)\<close>: the subject after the match\<close>
  "lazy_until_close [] = None"
| "lazy_until_close (c # cs) =
     (if c = CHR '')'' then Some cs
      else if is_line_terminator c then None
      else lazy_until_close cs)"

fun lazy_until_id :: "string \<Rightarrow> string \<Rightarrow> string option" where
  \<comment> \<open>\<^verbatim>\<open>(?:.*?)ID(?:.*?)\)\<close> where ID matches the placeholder id literally (the source
      escapes every metacharacter of the id)\<close>
  "lazy_until_id ident [] = None"
| "lazy_until_id ident (c # cs) =
     (case (if prefix ident (c # cs) then lazy_until_close (drop (length ident) (c # cs))
            else None) of
        Some rest \<Rightarrow> Some rest
      | None \<Rightarrow> if is_line_terminator c then None else lazy_until_id ident cs)"

definition match_image_ref :: "string \<Rightarrow> string \<Rightarrow> string option" where
  \<comment> \<open>\<^verbatim>\<open>\!\[[^\]]*\]\((?:.*?)ID(?:.*?)\)\<close> matched at the start of the subject: the subject
      after the match. The greedy class can only end at the first \<^verbatim>\<open>]\<close>.\<close>
  "match_image_ref ident cs =
     (if prefix ''!['' cs
      then (let r = dropWhile (\<lambda>c. c \<noteq> CHR '']'') (drop 2 cs)
            in if prefix ''](''  r then lazy_until_id ident (drop 2 r) else None)
      else None)"


lemma lazy_until_close_shorter:
  "lazy_until_close cs = Some rest \<Longrightarrow> length rest < length cs"
  by (induction cs) (auto split: if_splits)

lemma lazy_until_id_shorter:
  "lazy_until_id ident cs = Some rest \<Longrightarrow> length rest < length cs"
proof (induction cs)
  case Nil
  then show ?case by simp
next
  case (Cons c cs)
  show ?case
  proof (cases "prefix ident (c # cs) \<and> lazy_until_close (drop (length ident) (c # cs)) \<noteq> None")
    case True
    with Cons.prems have "lazy_until_close (drop (length ident) (c # cs)) = Some rest"
      by (auto split: option.splits)
    then have "length rest < length (drop (length ident) (c # cs))"
      by (rule lazy_until_close_shorter)
    then show ?thesis by simp
  next
    case False
    with Cons.prems have "lazy_until_id ident cs = Some rest"
      by (auto split: option.splits if_splits)
    with Cons.IH show ?thesis by simp
  qed
qed

lemma match_image_ref_shorter:
  "match_image_ref ident cs = Some rest \<Longrightarrow> length rest < length cs"
proof -
  assume m: "match_image_ref ident cs = Some rest"
  define r where "r = dropWhile (\<lambda>c. c \<noteq> CHR '']'') (drop 2 cs)"
  from m have "lazy_until_id ident (drop 2 r) = Some rest"
    by (simp add: match_image_ref_def r_def Let_def split: if_splits)
  then have "length rest < length (drop 2 r)"
    by (rule lazy_until_id_shorter)
  moreover have "length r \<le> length (drop 2 cs)"
    unfolding r_def by (rule length_dropWhile_le)
  ultimately show ?thesis by simp
qed

function replace_image_refs :: "string \<Rightarrow> string \<Rightarrow> string \<Rightarrow> string \<Rightarrow> string" where
  \<comment> \<open>\<^verbatim>\<open>md.replace(regex, obsidianLink)\<close> with the global flag: arguments are the placeholder
      id, the replacement string, the part of the subject already scanned, and the rest\<close>
  "replace_image_refs ident rep seen [] = []"
| "replace_image_refs ident rep seen (c # cs) =
     (case match_image_ref ident (c # cs) of
        Some rest \<Rightarrow>
          (let matched = take (length (c # cs) - length rest) (c # cs)
           in GetSubstitution matched seen rest rep
                @ replace_image_refs ident rep (seen @ matched) rest)
      | None \<Rightarrow> c # replace_image_refs ident rep (seen @ [c]) cs)"
  by pat_completeness auto
termination
  by (relation "measure (\<lambda>(ident, rep, seen, cs). length cs)")
     (auto dest: match_image_ref_shorter)

section \<open>The OCR result and the vault\<close>

record image =
  image_id :: string  \<comment> \<open>the field \<^verbatim>\<open>id\<close>\<close>
  imageBase64 :: "string option"

record page =
  index :: int
  markdown :: "string option"
  images :: "image list option"

record ocr_result =
  pages :: "page list option"  \<comment> \<open>\<open>None\<close>: the field is missing or not an array\<close>

datatype file_data =
    Data string
  | Base64Decoded string  \<comment> \<open>the bytes \<^verbatim>\<open>Buffer.from(body, "base64")\<close> decodes from the body\<close>

datatype entry = File file_data | Folder

datatype notice =
    NoticeAlreadyExists path  \<comment> \<open>\<^verbatim>\<open>Error: "<path>" already exists. Processing stopped.\<close>\<close>
  | NoticeNoPages  \<comment> \<open>\<^verbatim>\<open>OCR result does not contain pages.\<close>\<close>
  | NoticeStarting string
  | NoticeSuccess string
  | NoticeFailed string
  | NoticeNoValidKeys string
  | NoticeNoTextGenerator
  | NoticeSummaryStart nat
  | NoticeApiError string
  | NoticeSummaryDone nat

datatype remote_call = Upload string | GetSignedUrl string | OcrProcess string

text \<open>
  The vault is a collaborator. Its state is a map from paths to what they hold;
  \<^verbatim>\<open>getAbstractFileByPath\<close> and \<^verbatim>\<open>adapter.exists\<close> look a path up in it, \<^verbatim>\<open>adapter.writeBinary\<close>
  and \<^verbatim>\<open>createFolder\<close> store into it and do not fail, \<^verbatim>\<open>vault.create\<close> throws when the path is
  taken. What is written to the console is not part of the state.
\<close>

record world =
  entries :: "path \<rightharpoonup> entry"  \<comment> \<open>the vault: what each path holds\<close>
  notices :: "notice list"  \<comment> \<open>the notices shown so far, oldest first\<close>
  remote_calls :: "remote_call list"  \<comment> \<open>the calls made to the Mistral client so far\<close>

definition notify :: "world \<Rightarrow> notice \<Rightarrow> world" where
  "notify w n = w\<lparr>notices := notices w @ [n]\<rparr>"

section \<open>combineMarkdownWithImages and saveBase64Image\<close>

definition saveBase64Image :: "world \<Rightarrow> string \<Rightarrow> path \<Rightarrow> world" where
  "saveBase64Image w base64 filePath =
     (case data_uri_body base64 of
        None \<Rightarrow> w
      | Some body \<Rightarrow> w\<lparr>entries := (entries w)(filePath \<mapsto> File (Base64Decoded body))\<rparr>)"

definition process_image :: "string \<Rightarrow> path \<Rightarrow> string \<times> world \<Rightarrow> image \<Rightarrow> string \<times> world" where
  \<comment> \<open>one round of the inner loop, on the page's markdown so far and the world\<close>
  "process_image pdfBaseName finalImagesPath st imgObj =
     (let md = fst st; w = snd st; originalId = image_id imgObj
      in case imageBase64 imgObj of
           None \<Rightarrow> (md, w)
         | Some base64 \<Rightarrow>
             if base64 = [] \<or> endsWith base64 ''...'' then (md, w)
             else
               (let trimmedId = strip_jpg_suffix originalId;
                    imageFileName = pdfBaseName @ ''_'' @ trimmedId @ ''.jpeg'';
                    imageFilePath = finalImagesPath @ ''/'' @ imageFileName;
                    w' = saveBase64Image w base64 imageFilePath;
                    obsidianLink = ''![['' @ forward_slashes imageFilePath @ '']]''
                in (replace_image_refs originalId obsidianLink [] md, w')))"

definition process_page :: "string \<Rightarrow> path \<Rightarrow> string \<times> world \<Rightarrow> page \<Rightarrow> string \<times> world" where
  \<comment> \<open>one round of the outer loop, on the combined markdown so far and the world\<close>
  "process_page pdfBaseName finalImagesPath st pg =
     (let combinedMarkdown = fst st; w = snd st;
          md0 = (case markdown pg of None \<Rightarrow> [] | Some m \<Rightarrow> m);
          imgs = (case images pg of None \<Rightarrow> [] | Some is \<Rightarrow> is);
          r = foldl (process_image pdfBaseName finalImagesPath) (md0, w) imgs
      in (combinedMarkdown @ fst r @ blank_line, snd r))"

text \<open>
  The index of a page is an integer, so the comparison \<^verbatim>\<open>a.index - b.index\<close> orders the pages
  by index; \<^verbatim>\<open>Array.prototype.sort\<close> is stable and sorts the array it is called on, which is
  \<^const>\<open>sort_key\<close> on the field and a store into the object.
\<close>

definition combineMarkdownWithImages ::
  "world \<Rightarrow> ocr_result \<Rightarrow> string \<Rightarrow> path \<Rightarrow> string \<times> ocr_result \<times> world" where
  \<comment> \<open>the markdown returned, the OCR result object as the call leaves it (\<^verbatim>\<open>sort\<close> sorts the
      array in place, and stably), and the world\<close>
  "combineMarkdownWithImages w ocrResult pdfBaseName finalImagesPath =
     (case pages ocrResult of
        None \<Rightarrow> ([], ocrResult, notify w NoticeNoPages)
      | Some ps \<Rightarrow>
          (let sortedPages = sort_key index ps;
               r = foldl (process_page pdfBaseName finalImagesPath) ([], w) sortedPages
           in (fst r, ocrResult\<lparr>pages := Some sortedPages\<rparr>, snd r)))"

definition rendered_page :: "string \<Rightarrow> path \<Rightarrow> page \<Rightarrow> string" where
  \<comment> \<open>what one round of the outer loop appends to the combined markdown\<close>
  "rendered_page pdfBaseName finalImagesPath pg =
     fst (process_page pdfBaseName finalImagesPath
            ([], \<lparr>entries = Map.empty, notices = [], remote_calls = []\<rparr>) pg)"

section \<open>processPDFInternal and processPDFfromTFile\<close>

record summary_prompt_item =
  keyComment :: string
  prompt :: string

record settings =
  markdownOutputFolder :: string
  imagesOutputFolder :: string
  imagesFolderName :: string
  mistralApiKey :: string
  parallelProcessingLimit :: nat
  summaryPrompts :: "summary_prompt_item list"

text \<open>
  The Mistral client is a collaborator: each of its three calls either throws (\<open>Inl\<close>, with
  the error's message) or returns (\<open>Inr\<close>).
\<close>

record mistral =
  files_upload :: "string \<Rightarrow> file_data \<Rightarrow> string + string"
  files_getSignedUrl :: "string \<Rightarrow> string + string"
  ocr_process :: "string \<Rightarrow> string + ocr_result"

datatype error =
    ApiKeyNotSet  \<comment> \<open>\<^verbatim>\<open>Mistral API key is not set in settings.\<close>\<close>
  | RemoteFailure string  \<comment> \<open>an error of the client, thrown again\<close>
  | FileAlreadyExists path  \<comment> \<open>thrown by \<^verbatim>\<open>vault.create\<close> on a path that is taken\<close>
  | ReadFailure path  \<comment> \<open>thrown by \<^verbatim>\<open>vault.readBinary\<close>\<close>

datatype outcome = Returned | Threw error

record tfile =
  path :: path
  name :: string
  basename :: string

definition called :: "world \<Rightarrow> remote_call \<Rightarrow> world" where
  "called w c = w\<lparr>remote_calls := remote_calls w @ [c]\<rparr>"

definition targetMdPath :: "settings \<Rightarrow> string \<Rightarrow> path" where
  "targetMdPath cfg pdfBaseName =
     (let mdFolder = trim (markdownOutputFolder cfg);
          targetMdName = pdfBaseName @ ''.md''
      in if mdFolder \<noteq> [] then mdFolder @ ''/'' @ targetMdName else targetMdName)"

definition finalImagesPath :: "settings \<Rightarrow> path" where
  "finalImagesPath cfg =
     (let baseFolder = trim (imagesOutputFolder cfg);
          folderName = (if trim (imagesFolderName cfg) \<noteq> [] then trim (imagesFolderName cfg)
                        else ''pdf-mistral-images'')
      in if baseFolder \<noteq> [] \<and> folderName \<noteq> [] then baseFolder @ ''/'' @ folderName
         else if baseFolder \<noteq> [] then baseFolder
         else folderName)"

definition strip_slashes :: "string \<Rightarrow> string" where
  \<comment> \<open>\<^verbatim>\<open>replace(/^\/|\/$/g, '')\<close>: one leading and one trailing slash go\<close>
  "strip_slashes s =
     (let s1 = (if prefix ''/'' s then drop 1 s else s)
      in if s1 \<noteq> [] \<and> last s1 = CHR ''/'' then butlast s1 else s1)"

definition createFolderIfNotExists :: "world \<Rightarrow> path \<Rightarrow> world" where
  "createFolderIfNotExists w folderPath =
     (let cleanPath = strip_slashes (trim folderPath)
      in if cleanPath \<noteq> [] \<and> entries w cleanPath = None
         then w\<lparr>entries := (entries w)(cleanPath \<mapsto> Folder)\<rparr>
         else w)"

definition vault_create :: "world \<Rightarrow> path \<Rightarrow> string \<Rightarrow> outcome \<times> world" where
  \<comment> \<open>\<^verbatim>\<open>vault.create(path, data)\<close> creates a new file and throws when the path is taken\<close>
  "vault_create w p d =
     (if entries w p \<noteq> None then (Threw (FileAlreadyExists p), w)
      else (Returned, w\<lparr>entries := (entries w)(p \<mapsto> File (Data d))\<rparr>))"

definition processPDFInternal ::
  "settings \<Rightarrow> mistral \<Rightarrow> world \<Rightarrow> file_data \<Rightarrow> string \<Rightarrow> string \<Rightarrow> outcome \<times> world" where
  "processPDFInternal cfg client w pdfContent pdfBaseName originalFileName =
     (let mdFolder = trim (markdownOutputFolder cfg);
          targetMdName = pdfBaseName @ ''.md'';
          targetMdPath = (if mdFolder \<noteq> [] then mdFolder @ ''/'' @ targetMdName else targetMdName)
      in if entries w targetMdPath \<noteq> None
         then (Returned, notify w (NoticeAlreadyExists targetMdPath))
         else if trim (mistralApiKey cfg) = [] then (Threw ApiKeyNotSet, w)
         else
           (let w1 = called w (Upload originalFileName)
            in case files_upload client originalFileName pdfContent of
                 Inl e \<Rightarrow> (Threw (RemoteFailure e), w1)
               | Inr fileId \<Rightarrow>
                   (let w2 = called w1 (GetSignedUrl fileId)
                    in case files_getSignedUrl client fileId of
                         Inl e \<Rightarrow> (Threw (RemoteFailure e), w2)
                       | Inr url \<Rightarrow>
                           (let w3 = called w2 (OcrProcess url)
                            in case ocr_process client url of
                                 Inl e \<Rightarrow> (Threw (RemoteFailure e), w3)
                               | Inr ocrResponse \<Rightarrow>
                                   (let w4 = (if mdFolder \<noteq> []
                                              then createFolderIfNotExists w3 mdFolder else w3);
                                        w5 = createFolderIfNotExists w4 (finalImagesPath cfg);
                                        r = combineMarkdownWithImages w5 ocrResponse pdfBaseName
                                              (finalImagesPath cfg);
                                        finalMd = fst r;
                                        w6 = snd (snd r);
                                        mdFilePath = (if mdFolder \<noteq> []
                                                      then mdFolder @ ''/'' @ targetMdName
                                                      else targetMdName)
                                    in vault_create w6 mdFilePath finalMd)))))"

definition processPDFfromTFile :: "settings \<Rightarrow> mistral \<Rightarrow> world \<Rightarrow> tfile \<Rightarrow> outcome \<times> world" where
  "processPDFfromTFile cfg client w f =
     (let w0 = notify w (NoticeStarting (name f))
      in case entries w0 (path f) of
           Some (File arrayBuffer) \<Rightarrow>
             (case processPDFInternal cfg client w0 arrayBuffer (basename f) (name f) of
                (Returned, w1) \<Rightarrow> (Returned, notify w1 (NoticeSuccess (name f)))
              | (Threw e, w1) \<Rightarrow> (Threw e, notify w1 (NoticeFailed (name f))))
         | _ \<Rightarrow> (Threw (ReadFailure (path f)), notify w0 (NoticeFailed (name f))))"

section \<open>The workers of PDFSelectionModal\<close>

text \<open>
  JavaScript runs the workers on one thread: a worker runs until it awaits
  \<^verbatim>\<open>processPDFfromTFile\<close> and goes on when that promise settles. A worker is \<open>Ready\<close> when it
  is about to test \<^verbatim>\<open>queue.length > 0\<close>, \<open>Awaiting\<close> while the ingestion of a file is pending,
  and \<open>Finished\<close> once it has left its loop. An event names the worker that runs next and, for
  an awaiting worker, whether the ingestion resolved (\<open>True\<close>) or threw. Every interleaving of
  the workers is a list of events.
\<close>

datatype 'd worker = Ready | Awaiting 'd | Finished

record 'd batch =
  queue :: "'d list"
  successCount :: nat
  failureCount :: nat
  workers :: "'d worker list"
  ingested :: "'d list"  \<comment> \<open>the files passed to \<^verbatim>\<open>processPDFfromTFile\<close> so far, in call order\<close>

definition worker_step :: "'d batch \<Rightarrow> nat \<times> bool \<Rightarrow> 'd batch" where
  "worker_step b ev =
     (let i = fst ev; resolved = snd ev
      in if length (workers b) \<le> i then b
         else case workers b ! i of
                Ready \<Rightarrow>
                  (case queue b of
                     [] \<Rightarrow> b\<lparr>workers := (workers b)[i := Finished]\<rparr>
                   | fileToProcess # rest \<Rightarrow>
                       b\<lparr>queue := rest,
                         workers := (workers b)[i := Awaiting fileToProcess],
                         ingested := ingested b @ [fileToProcess]\<rparr>)
              | Awaiting d \<Rightarrow>
                  (if resolved
                   then b\<lparr>successCount := successCount b + 1, workers := (workers b)[i := Ready]\<rparr>
                   else b\<lparr>failureCount := failureCount b + 1, workers := (workers b)[i := Ready]\<rparr>)
              | Finished \<Rightarrow> b)"

definition start_batch :: "'d list \<Rightarrow> nat \<Rightarrow> 'd batch" where
  "start_batch selectedFiles concurrencyLimit =
     \<lparr>queue = selectedFiles, successCount = 0, failureCount = 0,
      workers = replicate concurrencyLimit Ready, ingested = []\<rparr>"

definition run_batch :: "'d list \<Rightarrow> nat \<Rightarrow> (nat \<times> bool) list \<Rightarrow> 'd batch" where
  "run_batch selectedFiles concurrencyLimit evs =
     foldl worker_step (start_batch selectedFiles concurrencyLimit) evs"

definition is_finished :: "'d worker \<Rightarrow> bool" where
  "is_finished wk = (case wk of Finished \<Rightarrow> True | _ \<Rightarrow> False)"

definition all_finished :: "'d batch \<Rightarrow> bool" where
  \<comment> \<open>\<^verbatim>\<open>Promise.all(workerPromises)\<close> has resolved\<close>
  "all_finished b = list_all is_finished (workers b)"

definition is_awaiting :: "'d worker \<Rightarrow> bool" where
  "is_awaiting wk = (case wk of Awaiting d \<Rightarrow> True | _ \<Rightarrow> False)"

definition batch_inv :: "'d list \<Rightarrow> nat \<Rightarrow> 'd batch \<Rightarrow> bool" where
  \<comment> \<open>what every state of a batch of the files \<open>docs\<close> with \<open>k\<close> workers satisfies\<close>
  "batch_inv docs k b \<longleftrightarrow>
     ingested b @ queue b = docs
     \<and> successCount b + failureCount b + length (filter is_awaiting (workers b))
         = length (ingested b)
     \<and> (list_ex is_finished (workers b) \<longrightarrow> queue b = [])
     \<and> length (workers b) = k"

definition drain :: "('d \<Rightarrow> bool) \<Rightarrow> 'd list \<Rightarrow> (nat \<times> bool) list" where
  \<comment> \<open>the events of a run in which the first worker takes every file and each ingestion
      settles as \<open>ok\<close> says\<close>
  "drain ok ds = concat (map (\<lambda>d. [(0, ok d), (0, ok d)]) ds)"

section \<open>processPdfAndSummarize\<close>

text \<open>
  The model starts where the source has read both documents (lines 425 and 428): its
  arguments are the content of the OCR markdown and the content of the active note. What the
  function does before (finding the note's PDF, running the OCR when the markdown is missing)
  is not part of it.
\<close>

definition comment_close :: "string \<Rightarrow> string option" where
  \<comment> \<open>\<^verbatim>\<open>\s*-->\<close>: the subject after the match\<close>
  "comment_close cs =
     (let r = dropWhile is_white_space cs
      in if prefix ''-->'' r then Some (drop 3 r) else None)"

fun lazy_comment_body :: "string \<Rightarrow> string \<Rightarrow> (string \<times> string) option" where
  \<comment> \<open>\<^verbatim>\<open>([\s\S]*?)\s*-->\<close>: group 1 (collected in reverse in the first argument) and the
      subject after the match\<close>
  "lazy_comment_body acc [] =
     (case comment_close [] of Some rest \<Rightarrow> Some (rev acc, rest) | None \<Rightarrow> None)"
| "lazy_comment_body acc (c # cs) =
     (case comment_close (c # cs) of
        Some rest \<Rightarrow> Some (rev acc, rest)
      | None \<Rightarrow> lazy_comment_body (c # acc) cs)"

definition match_comment :: "string \<Rightarrow> (string \<times> string) option" where
  \<comment> \<open>\<^verbatim>\<open><!--\s*([\s\S]*?)\s*-->\<close> matched at the start of the subject\<close>
  "match_comment cs =
     (if prefix ''<!--'' cs then lazy_comment_body [] (dropWhile is_white_space (drop 4 cs))
      else None)"

lemma comment_close_shorter:
  "comment_close cs = Some rest \<Longrightarrow> length rest < length cs"
proof -
  assume a: "comment_close cs = Some rest"
  define r where "r = dropWhile is_white_space cs"
  from a have p: "prefix ''-->'' r" and rest: "rest = drop 3 r"
    by (auto simp: comment_close_def r_def Let_def split: if_splits)
  from p have "3 \<le> length r" by (auto simp: prefix_def)
  moreover have "length r \<le> length cs" unfolding r_def by (rule length_dropWhile_le)
  ultimately show ?thesis using rest by simp
qed

lemma lazy_comment_body_shorter:
  "lazy_comment_body acc cs = Some (k, rest) \<Longrightarrow> length rest < length cs"
proof (induction cs arbitrary: acc)
  case Nil
  then show ?case by (auto split: option.splits dest: comment_close_shorter)
next
  case (Cons c cs)
  then show ?case
    by (fastforce split: option.splits dest: comment_close_shorter)
qed

lemma match_comment_shorter:
  "match_comment cs = Some (k, rest) \<Longrightarrow> length rest < length cs"
proof -
  assume a: "match_comment cs = Some (k, rest)"
  then have "lazy_comment_body [] (dropWhile is_white_space (drop 4 cs)) = Some (k, rest)"
    by (simp add: match_comment_def split: if_splits)
  then have "length rest < length (dropWhile is_white_space (drop 4 cs))"
    by (rule lazy_comment_body_shorter)
  moreover have "length (dropWhile is_white_space (drop 4 cs)) \<le> length (drop 4 cs)"
    by (rule length_dropWhile_le)
  ultimately show ?thesis by simp
qed

function comment_matches :: "string \<Rightarrow> (string \<times> string) list" where
  \<comment> \<open>\<^verbatim>\<open>[...noteContent.matchAll(commentRegex)]\<close>: of each match, the matched text and group 1\<close>
  "comment_matches [] = []"
| "comment_matches (c # cs) =
     (case match_comment (c # cs) of
        Some (k, rest) \<Rightarrow>
          (take (length (c # cs) - length rest) (c # cs), k) # comment_matches rest
      | None \<Rightarrow> comment_matches cs)"
  by pat_completeness auto
termination
  by (relation "measure length") (auto dest: match_comment_shorter)

definition is_digit :: "char \<Rightarrow> bool" where
  "is_digit c \<longleftrightarrow> c \<in> set ''0123456789''"

definition digits_to_int :: "string \<Rightarrow> int" where
  "digits_to_int s = foldl (\<lambda>n c. 10 * n + (of_char c - 48)) 0 s"

definition is_array_index :: "string \<Rightarrow> bool" where
  \<comment> \<open>the canonical decimal form of an integer from 0 to 4294967294\<close>
  "is_array_index s \<longleftrightarrow>
     s \<noteq> [] \<and> list_all is_digit s \<and> (s = ''0'' \<or> hd s \<noteq> CHR ''0'')
       \<and> digits_to_int s \<le> 4294967294"

definition promptMap_of :: "summary_prompt_item list \<Rightarrow> (string \<times> string) list" where
  \<comment> \<open>the object built by \<^verbatim>\<open>promptMap[item.keyComment] = item.prompt\<close>, its properties in the
      order of their creation; assigning a string to \<^verbatim>\<open>__proto__\<close> creates no property\<close>
  "promptMap_of items =
     foldl (\<lambda>pm item. if keyComment item = ''__proto__'' then pm
                        else AList.update (keyComment item) (prompt item) pm) [] items"

definition object_keys :: "(string \<times> string) list \<Rightarrow> string list" where
  \<comment> \<open>\<^verbatim>\<open>Object.keys\<close>: the array indices in ascending order, then the other keys in the order of
      their creation\<close>
  "object_keys pm =
     sort_key digits_to_int (filter is_array_index (map fst pm))
       @ filter (\<lambda>k. \<not> is_array_index k) (map fst pm)"

fun join :: "string \<Rightarrow> string list \<Rightarrow> string" where
  "join sep [] = []"
| "join sep [x] = x"
| "join sep (x # y # ys) = x @ sep @ join sep (y # ys)"

fun replace_first :: "string \<Rightarrow> string \<Rightarrow> string \<Rightarrow> string \<Rightarrow> string" where
  \<comment> \<open>\<^verbatim>\<open>subject.replace(pat, rep)\<close> for a string \<open>pat\<close>: arguments are the pattern, the
      replacement string, the part of the subject already scanned, and the rest\<close>
  "replace_first pat rep seen [] = (if pat = [] then GetSubstitution [] seen [] rep else [])"
| "replace_first pat rep seen (c # cs) =
     (if prefix pat (c # cs)
      then GetSubstitution pat seen (drop (length pat) (c # cs)) rep @ drop (length pat) (c # cs)
      else c # replace_first pat rep (seen @ [c]) cs)"

datatype gen_result =
    ResultNull  \<comment> \<open>\<^verbatim>\<open>null\<close> or \<^verbatim>\<open>undefined\<close>\<close>
  | ResultString string
  | ResultObject "string option" "string option"  \<comment> \<open>the fields \<^verbatim>\<open>text\<close> and \<^verbatim>\<open>content\<close>\<close>

fun summaryText :: "gen_result \<Rightarrow> string" where
  \<comment> \<open>\<^verbatim>\<open>result?.text ?? result?.content ?? result ?? ''\<close>, as \<^verbatim>\<open>replace\<close> reads it\<close>
  "summaryText ResultNull = []"
| "summaryText (ResultString s) = s"
| "summaryText (ResultObject (Some t) c) = t"
| "summaryText (ResultObject None (Some c)) = c"
| "summaryText (ResultObject None None) = ''[object Object]''"

text \<open>
  The text generator is a collaborator: its answer to the \<open>n\<close>-th call of an invocation, given
  the prompt, is an error message (\<open>Inl\<close>: the call threw) or a result.
\<close>

type_synonym text_generator = "nat \<Rightarrow> string \<Rightarrow> string + gen_result"

datatype effect =
    Notice notice
  | Gen string  \<comment> \<open>a call of \<^verbatim>\<open>tg.pluginAPIService.gen\<close> with this prompt\<close>
  | Modify string  \<comment> \<open>\<^verbatim>\<open>vault.modify(activeFile, content)\<close>\<close>

definition keysInNote :: "string \<Rightarrow> string set" where
  "keysInNote noteContent = set (map (\<lambda>m. trim (snd m)) (comment_matches noteContent))"

definition keysToProcess :: "settings \<Rightarrow> string \<Rightarrow> string list" where
  "keysToProcess cfg noteContent =
     filter (\<lambda>key. key \<in> keysInNote noteContent) (object_keys (promptMap_of (summaryPrompts cfg)))"

definition validMatches :: "settings \<Rightarrow> string \<Rightarrow> (string \<times> string) list" where
  \<comment> \<open>of each key to process, the text of the first comment with that key, and the key\<close>
  "validMatches cfg noteContent =
     concat (map (\<lambda>key. case find (\<lambda>m. trim (snd m) = key) (comment_matches noteContent) of
                           Some m \<Rightarrow> [(fst m, trim (snd m))]
                         | None \<Rightarrow> [])
              (keysToProcess cfg noteContent))"

definition promptText :: "(string \<times> string) list \<Rightarrow> string \<Rightarrow> string \<Rightarrow> string" where
  \<comment> \<open>\<^verbatim>\<open>`${userInstruction}\n\n---\n\n${srcContent}`\<close>\<close>
  "promptText promptMap srcContent key =
     (case map_of promptMap key of Some userInstruction \<Rightarrow> userInstruction | None \<Rightarrow> ''undefined'')
       @ blank_line @ ''---'' @ blank_line @ srcContent"

fun summarize_loop ::
  "text_generator \<Rightarrow> (string \<times> string) list \<Rightarrow> string \<Rightarrow> nat \<Rightarrow> string \<Rightarrow> (string \<times> string) list
     \<Rightarrow> effect list \<times> string option" where
  \<comment> \<open>the loop over \<^verbatim>\<open>validMatches\<close>, from the \<open>n\<close>-th call of the generator on: its effects,
      and the note content when the loop runs to its end (\<open>None\<close>: it returned early)\<close>
  "summarize_loop gen promptMap srcContent n noteContent [] = ([], Some noteContent)"
| "summarize_loop gen promptMap srcContent n noteContent ((fullComment, key) # ms) =
     (case gen n (promptText promptMap srcContent key) of
        Inl msg \<Rightarrow> ([Gen (promptText promptMap srcContent key), Notice (NoticeApiError msg)], None)
      | Inr result \<Rightarrow>
          (let r = summarize_loop gen promptMap srcContent (Suc n)
                     (replace_first fullComment (summaryText result) [] noteContent) ms
           in (Gen (promptText promptMap srcContent key) # fst r, snd r)))"

definition processPdfAndSummarize ::
  "settings \<Rightarrow> text_generator option \<Rightarrow> string \<Rightarrow> string \<Rightarrow> effect list" where
  \<comment> \<open>the effects of one invocation, in order; the generator is \<open>None\<close> when the Text Generator
      plugin is not installed\<close>
  "processPdfAndSummarize cfg tg srcContent noteContent =
     (let promptMap = promptMap_of (summaryPrompts cfg)
      in if keysToProcess cfg noteContent = []
         then [Notice (NoticeNoValidKeys (join '', '' (object_keys promptMap)))]
         else case tg of
                None \<Rightarrow> [Notice NoticeNoTextGenerator]
              | Some gen \<Rightarrow>
                  (let n = length (validMatches cfg noteContent);
                       r = summarize_loop gen promptMap srcContent 0 noteContent
                             (validMatches cfg noteContent)
                   in case snd r of
                        None \<Rightarrow> Notice (NoticeSummaryStart n) # fst r
                      | Some finalContent \<Rightarrow>
                          Notice (NoticeSummaryStart n) # fst r
                            @ [Modify finalContent, Notice (NoticeSummaryDone n)]))"

section \<open>Concrete inputs\<close>

definition empty_world :: world where
  "empty_world = \<lparr>entries = Map.empty, notices = [], remote_calls = []\<rparr>"

definition page_one :: page where
  "page_one = \<lparr>index = 1, markdown = Some ''B'', images = None\<rparr>"

definition page_zero :: "string \<Rightarrow> page" where
  "page_zero payload =
     \<lparr>index = 0, markdown = Some ''A ![img](img-0.jpeg)'',
      images = Some [\<lparr>image_id = ''img-0.jpeg'', imageBase64 = Some payload\<rparr>]\<rparr>"

definition jpeg_payload :: string where
  "jpeg_payload = ''data:image/jpeg;base64,AAAA''"

definition png_payload :: string where
  "png_payload = ''data:image/png;base64,AAAA''"

definition tie_a :: page where
  "tie_a = \<lparr>index = 0, markdown = Some ''A'', images = None\<rparr>"

definition tie_b :: page where
  "tie_b = \<lparr>index = 0, markdown = Some ''B'', images = None\<rparr>"

definition page_png :: page where
  "page_png =
     \<lparr>index = 0, markdown = Some ''![x](img-0.jpeg)'',
      images = Some [\<lparr>image_id = ''img-0.jpeg'', imageBase64 = Some png_payload\<rparr>]\<rparr>"

definition test_settings :: settings where
  "test_settings =
     \<lparr>markdownOutputFolder = [], imagesOutputFolder = [], imagesFolderName = ''pdf-mistral-images'',
      mistralApiKey = ''key'', parallelProcessingLimit = 3,
      summaryPrompts = [\<lparr>keyComment = ''summary'', prompt = ''Summarize.''\<rparr>,
                        \<lparr>keyComment = ''methods'', prompt = ''Describe the methods.''\<rparr>]\<rparr>"

definition offline_client :: mistral where
  "offline_client =
     \<lparr>files_upload = (\<lambda>n d. Inl ''offline''), files_getSignedUrl = (\<lambda>i. Inl ''offline''),
      ocr_process = (\<lambda>u. Inl ''offline'')\<rparr>"

definition ocr_client :: "ocr_result \<Rightarrow> mistral" where
  "ocr_client r =
     \<lparr>files_upload = (\<lambda>n d. Inr ''file-1''), files_getSignedUrl = (\<lambda>i. Inr ''signed-url''),
      ocr_process = (\<lambda>u. Inr r)\<rparr>"

definition doc_pdf :: tfile where
  "doc_pdf = \<lparr>path = ''doc.pdf'', name = ''doc.pdf'', basename = ''doc''\<rparr>"

definition vault_with_pdf :: world where
  "vault_with_pdf =
     \<lparr>entries = [''doc.pdf'' \<mapsto> File (Data ''%PDF'')], notices = [], remote_calls = []\<rparr>"

definition vault_with_output :: world where
  "vault_with_output =
     \<lparr>entries = [''doc.pdf'' \<mapsto> File (Data ''%PDF''), ''doc.md'' \<mapsto> File (Data ''old'')],
      notices = [], remote_calls = []\<rparr>"

definition spaced_settings :: settings where
  "spaced_settings = test_settings\<lparr>markdownOutputFolder := '' out''\<rparr>"

definition note_two :: string where
  "note_two = ''<!-- summary -->x<!--methods-->''"

definition note_other :: string where
  "note_other = ''<!-- other -->''"

definition gen_all_ok :: text_generator where
  "gen_all_ok n p = Inr (ResultString (if n = 0 then ''S'' else ''M''))"

definition gen_second_fails :: text_generator where
  "gen_second_fails n p = (if n = 0 then Inr (ResultString ''S'') else Inl ''boom'')"

definition gen_text :: "string \<Rightarrow> text_generator" where
  "gen_text t n p = Inr (ResultString t)"

definition nested_settings :: settings where
  "nested_settings =
     test_settings\<lparr>summaryPrompts := [\<lparr>keyComment = ''d'', prompt = ''P''\<rparr>,
                                       \<lparr>keyComment = ''c<!--d'', prompt = ''Q''\<rparr>]\<rparr>"

definition note_nested :: string where
  "note_nested = ''<!--c<!--d--><!--d-->''"

definition gen_x_y :: text_generator where
  "gen_x_y n p = Inr (ResultString (if n = 0 then ''X'' else ''Y''))"

section \<open>Facts about the strings\<close>

lemma GetSubstitution_no_dollar:
  "CHR ''$'' \<notin> set r \<Longrightarrow> GetSubstitution m b a r = r"
  by (induction m b a r rule: GetSubstitution.induct) auto

lemma dollar_forward_slashes:
  "CHR ''$'' \<in> set (forward_slashes s) \<longleftrightarrow> CHR ''$'' \<in> set s"
  by (induction s) (auto simp: forward_slashes_def backslash_def)

lemma no_backslash_forward_slashes:
  "backslash \<notin> set (forward_slashes s)"
  by (induction s) (auto simp: forward_slashes_def backslash_def)

lemma jpg_suffix_length:
  "jpg_suffix cs \<Longrightarrow> (length cs = 4 \<or> length cs = 5) \<and> hd cs = CHR ''.'' \<and> CHR ''.'' \<notin> set (tl cs)"
  by (erule jpg_suffix.elims) (auto simp: same_letter_def)

lemma jpg_suffix_not_longer:
  assumes "jpg_suffix ext" and "s \<noteq> []"
  shows "\<not> jpg_suffix (s @ ext)"
proof
  assume a: "jpg_suffix (s @ ext)"
  from assms(1) have e: "hd ext = CHR ''.''" "ext \<noteq> []"
    using jpg_suffix_length [of ext] by auto
  from assms(2) obtain c s' where s: "s = c # s'" by (cases s) auto
  from e have "CHR ''.'' \<in> set ext" by (cases ext) auto
  then have "CHR ''.'' \<in> set (tl (s @ ext))" using s by simp
  with jpg_suffix_length [OF a] show False by simp
qed

lemma strip_jpg_suffix_removes:
  "jpg_suffix ext \<Longrightarrow> strip_jpg_suffix (s @ ext) = s"
proof (induction s)
  case Nil
  then show ?case by (cases ext) auto
next
  case (Cons c s)
  from Cons.prems have "\<not> jpg_suffix ((c # s) @ ext)"
    by (rule jpg_suffix_not_longer) simp
  with Cons show ?case by simp
qed

lemma strip_jpg_suffix_keeps:
  "(\<And>s ext. i = s @ ext \<Longrightarrow> \<not> jpg_suffix ext) \<Longrightarrow> strip_jpg_suffix i = i"
proof (induction i)
  case Nil
  show ?case by simp
next
  case (Cons c i)
  have "\<not> jpg_suffix (c # i)" using Cons.prems [of "[]" "c # i"] by simp
  moreover have "strip_jpg_suffix i = i"
  proof (rule Cons.IH)
    fix s ext assume "i = s @ ext"
    then have "c # i = (c # s) @ ext" by simp
    then show "\<not> jpg_suffix ext" by (rule Cons.prems)
  qed
  ultimately show ?case by simp
qed

lemma set_strip_jpg_suffix:
  "set (strip_jpg_suffix i) \<subseteq> set i"
  by (induction i) auto

lemma data_uri_body_nonempty:
  "data_uri_body p = Some body \<Longrightarrow> p \<noteq> []"
  by (auto simp: data_uri_body_def)

lemma data_uri_body_jpeg_payload:
  "data_uri_body jpeg_payload = Some ''AAAA''"
  by (simp add: data_uri_body_def jpeg_payload_def is_line_terminator_def)

lemma data_uri_body_png_payload:
  "data_uri_body png_payload = None"
  by (simp add: data_uri_body_def png_payload_def)

lemma not_placeholder_jpeg_payload:
  "\<not> endsWith jpeg_payload ''...''"
  by (simp add: endsWith_def jpeg_payload_def)

lemma not_placeholder_png_payload:
  "\<not> endsWith png_payload ''...''"
  by (simp add: endsWith_def png_payload_def)

section \<open>Facts about combineMarkdownWithImages\<close>

lemma process_image_rewrites:
  "base64 \<noteq> [] \<Longrightarrow> \<not> endsWith base64 ''...'' \<Longrightarrow>
   process_image b f (md, w) \<lparr>image_id = i, imageBase64 = Some base64\<rparr>
     = (replace_image_refs i
          (''![['' @ forward_slashes (f @ ''/'' @ b @ ''_'' @ strip_jpg_suffix i @ ''.jpeg'') @ '']]'')
          [] md,
        saveBase64Image w base64 (f @ ''/'' @ b @ ''_'' @ strip_jpg_suffix i @ ''.jpeg''))"
  by (simp add: process_image_def Let_def del: replace_image_refs.simps strip_jpg_suffix.simps)

lemma process_image_skips:
  "base64 = [] \<or> endsWith base64 ''...'' \<Longrightarrow>
   process_image b f (md, w) \<lparr>image_id = i, imageBase64 = Some base64\<rparr> = (md, w)"
  by (simp add: process_image_def Let_def del: replace_image_refs.simps strip_jpg_suffix.simps)

lemma saveBase64Image_invalid:
  "data_uri_body base64 = None \<Longrightarrow> saveBase64Image w base64 p = w"
  by (simp add: saveBase64Image_def)

lemma fst_process_image_world:
  "fst (process_image b f (md, w) img) = fst (process_image b f (md, w') img)"
  by (simp add: process_image_def Let_def split: option.splits
        del: replace_image_refs.simps strip_jpg_suffix.simps)

lemma fst_foldl_process_image_world:
  "fst (foldl (process_image b f) (md, w) imgs) = fst (foldl (process_image b f) (md, w') imgs)"
proof (induction imgs arbitrary: md w w')
  case Nil
  show ?case by simp
next
  case (Cons img imgs)
  obtain md1 w1 where s1: "process_image b f (md, w) img = (md1, w1)"
    by (cases "process_image b f (md, w) img")
  obtain md2 w2 where s2: "process_image b f (md, w') img = (md2, w2)"
    by (cases "process_image b f (md, w') img")
  from s1 s2 fst_process_image_world [of b f md w img w'] have "md1 = md2" by simp
  with s1 s2 Cons.IH [of md1 w1 w2] show ?case by simp
qed

lemma fst_process_page:
  "fst (process_page b f (acc, w) pg) = acc @ rendered_page b f pg"
  unfolding process_page_def rendered_page_def Let_def fst_conv snd_conv
  using fst_foldl_process_image_world by (metis append_Nil)

lemma fst_foldl_process_page:
  "fst (foldl (process_page b f) (acc, w) ps) = acc @ concat (map (rendered_page b f) ps)"
proof (induction ps arbitrary: acc w)
  case Nil
  show ?case by simp
next
  case (Cons pg ps)
  obtain acc1 w1 where s1: "process_page b f (acc, w) pg = (acc1, w1)"
    by (cases "process_page b f (acc, w) pg")
  with fst_process_page [of b f acc w pg] have "acc1 = acc @ rendered_page b f pg" by simp
  with s1 Cons.IH [of acc1 w1] show ?case by simp
qed

lemma fst_combine:
  "fst (combineMarkdownWithImages w \<lparr>pages = Some ps\<rparr> b f) =
     concat (map (rendered_page b f) (sort_key index ps))"
  using fst_foldl_process_page [of b f "[]" w "sort_key index ps"]
  by (simp add: combineMarkdownWithImages_def Let_def)

lemma rendered_plain:
  "rendered_page b f \<lparr>index = i, markdown = Some m, images = None\<rparr> = m @ blank_line"
  by (simp add: rendered_page_def process_page_def)

lemma rendered_one_image:
  "rendered_page b f \<lparr>index = n, markdown = Some m, images = Some [img]\<rparr>
     = fst (process_image b f (m, \<lparr>entries = Map.empty, notices = [], remote_calls = []\<rparr>) img)
         @ blank_line"
  by (simp add: rendered_page_def process_page_def Let_def)

lemma sort_key_distinct_perm:
  fixes f :: "'a \<Rightarrow> int"
  assumes "mset ps' = mset ps" and "distinct (map f ps)"
  shows "sort_key f ps' = sort_key f ps"
proof (rule sort_key_inj_key_eq)
  show "mset ps' = mset (sort_key f ps)" using assms(1) by simp
  have "set ps' = set ps" using assms(1) by (rule mset_eq_setD)
  with assms(2) show "inj_on f (set ps')" by (simp add: distinct_map)
  show "sorted (map f (sort_key f ps))" by (rule sorted_sort_key)
qed

lemma match_scenario:
  "match_image_ref ''img-0.jpeg'' ''![img](img-0.jpeg)'' = Some []"
  by (simp add: match_image_ref_def is_line_terminator_def)

lemma no_match_scenario_A:
  "match_image_ref ''img-0.jpeg'' ''A ![img](img-0.jpeg)'' = None"
  by (simp add: match_image_ref_def)

lemma no_match_scenario_space:
  "match_image_ref ''img-0.jpeg'' '' ![img](img-0.jpeg)'' = None"
  by (simp add: match_image_ref_def)

lemma replace_scenario:
  "replace_image_refs ''img-0.jpeg'' rep [] ''A ![img](img-0.jpeg)''
     = ''A '' @ GetSubstitution ''![img](img-0.jpeg)'' ''A '' [] rep"
  by (simp add: match_scenario no_match_scenario_A no_match_scenario_space)

lemma strip_scenario:
  "strip_jpg_suffix ''img-0.jpeg'' = ''img-0''"
  by (simp add: same_letter_def)

lemma sorted_scenario:
  "sort_key index [page_one, page_zero payload] = [page_zero payload, page_one]"
  by (simp add: page_one_def page_zero_def)

lemma rendered_page_zero:
  assumes "payload \<noteq> []" and "\<not> endsWith payload ''...''"
  shows "rendered_page ''doc'' f (page_zero payload)
           = ''A '' @ GetSubstitution ''![img](img-0.jpeg)'' ''A '' []
                        (''![['' @ forward_slashes (f @ ''/doc_img-0.jpeg'') @ '']]'')
                @ blank_line"
  unfolding page_zero_def rendered_one_image process_image_rewrites [OF assms] strip_scenario
    replace_scenario
  by simp

section \<open>The scenario of two pages\<close>

text \<open>
  Claim C2, as amended. The OCR result has two pages with the index values 1 and 0, in that
  order; the page of index 0 has the markdown \<^verbatim>\<open>A ![img](img-0.jpeg)\<close> and one image of id
  \<^verbatim>\<open>img-0.jpeg\<close> whose payload is a JPEG data URI and no truncation placeholder; the page of
  index 1 has the markdown \<^verbatim>\<open>B\<close>. For the base name \<^verbatim>\<open>doc\<close> and every images folder without a
  dollar sign, the markdown returned is \<^verbatim>\<open>A ![[<folder>/doc_img-0.jpeg]]\n\nB\n\n\<close>, where
  \<^verbatim>\<open><folder>\<close> is the images folder with every backslash turned into a forward slash.
\<close>

theorem scenario_two_pages:
  assumes "data_uri_body payload = Some body" and "\<not> endsWith payload ''...''"
    and "CHR ''$'' \<notin> set f"
  shows "fst (combineMarkdownWithImages w \<lparr>pages = Some [page_one, page_zero payload]\<rparr> ''doc'' f)
           = ''A ![['' @ forward_slashes f @ ''/doc_img-0.jpeg]]'' @ blank_line @ ''B'' @ blank_line"
proof -
  have ne: "payload \<noteq> []" using assms(1) by (rule data_uri_body_nonempty)
  let ?link = "''![['' @ forward_slashes (f @ ''/doc_img-0.jpeg'') @ '']]''"
  have nd: "CHR ''$'' \<notin> set ?link"
    using assms(3) by (simp add: dollar_forward_slashes)
  have link: "?link = ''![['' @ forward_slashes f @ ''/doc_img-0.jpeg]]''"
    by (simp add: forward_slashes_def backslash_def)
  have p0: "rendered_page ''doc'' f (page_zero payload) = ''A '' @ ?link @ blank_line"
    unfolding rendered_page_zero [OF ne assms(2)] GetSubstitution_no_dollar [OF nd] ..
  have p1: "rendered_page ''doc'' f page_one = ''B'' @ blank_line"
    by (simp add: page_one_def rendered_plain)
  show ?thesis
    unfolding fst_combine sorted_scenario using p0 p1 link by simp
qed

text \<open>The scenario with the images folder \<^verbatim>\<open>imgs\<close>.\<close>

theorem scenario_two_pages_witness:
  "data_uri_body jpeg_payload = Some ''AAAA''
   \<and> \<not> endsWith jpeg_payload ''...''
   \<and> CHR ''$'' \<notin> set ''imgs''
   \<and> fst (combineMarkdownWithImages empty_world
            \<lparr>pages = Some [page_one, page_zero jpeg_payload]\<rparr> ''doc'' ''imgs'')
       = ''A ![[imgs/doc_img-0.jpeg]]'' @ blank_line @ ''B'' @ blank_line"
proof -
  have h3: "CHR ''$'' \<notin> set ''imgs''" by simp
  have "fst (combineMarkdownWithImages empty_world
            \<lparr>pages = Some [page_one, page_zero jpeg_payload]\<rparr> ''doc'' ''imgs'')
       = ''A ![['' @ forward_slashes ''imgs'' @ ''/doc_img-0.jpeg]]'' @ blank_line @ ''B'' @ blank_line"
    by (rule scenario_two_pages [OF data_uri_body_jpeg_payload not_placeholder_jpeg_payload h3])
  then have c: "fst (combineMarkdownWithImages empty_world
            \<lparr>pages = Some [page_one, page_zero jpeg_payload]\<rparr> ''doc'' ''imgs'')
       = ''A ![[imgs/doc_img-0.jpeg]]'' @ blank_line @ ''B'' @ blank_line"
    by (simp add: forward_slashes_def backslash_def)
  from data_uri_body_jpeg_payload not_placeholder_jpeg_payload h3 c show ?thesis by blast
qed

text \<open>
  With the images folder \<^verbatim>\<open>a\b\<close> the link names \<^verbatim>\<open>a/b\<close>, not the configured folder path.
\<close>

theorem scenario_two_pages_counterexample:
  "fst (combineMarkdownWithImages empty_world
          \<lparr>pages = Some [page_one, page_zero jpeg_payload]\<rparr> ''doc'' (''a'' @ [backslash] @ ''b''))
     = ''A ![[a/b/doc_img-0.jpeg]]'' @ blank_line @ ''B'' @ blank_line
   \<and> fst (combineMarkdownWithImages empty_world
          \<lparr>pages = Some [page_one, page_zero jpeg_payload]\<rparr> ''doc'' (''a'' @ [backslash] @ ''b''))
     \<noteq> ''A ![['' @ (''a'' @ [backslash] @ ''b'') @ ''/doc_img-0.jpeg]]'' @ blank_line @ ''B''
          @ blank_line"
proof -
  let ?f = "''a'' @ [backslash] @ ''b''"
  have ne: "jpeg_payload \<noteq> []" by (simp add: jpeg_payload_def)
  have link: "''![['' @ forward_slashes (?f @ ''/doc_img-0.jpeg'') @ '']]'' = ''![[a/b/doc_img-0.jpeg]]''"
    by (simp add: forward_slashes_def backslash_def)
  have p0: "rendered_page ''doc'' ?f (page_zero jpeg_payload)
              = ''A ![[a/b/doc_img-0.jpeg]]'' @ blank_line"
    unfolding rendered_page_zero [OF ne not_placeholder_jpeg_payload] link by simp
  have p1: "rendered_page ''doc'' ?f page_one = ''B'' @ blank_line"
    by (simp add: page_one_def rendered_plain)
  have r: "fst (combineMarkdownWithImages empty_world
          \<lparr>pages = Some [page_one, page_zero jpeg_payload]\<rparr> ''doc'' ?f)
     = ''A ![[a/b/doc_img-0.jpeg]]'' @ blank_line @ ''B'' @ blank_line"
    unfolding fst_combine sorted_scenario using p0 p1 by simp
  show ?thesis unfolding r by (simp add: backslash_def)
qed

section \<open>The order of the pages\<close>

text \<open>
  Claim C3, as amended. When the index values of the pages are pairwise distinct, every
  permutation of the input pages gives the same result (the same markdown, the same files
  written, the same array left behind). In every case the markdown is the concatenation of the
  pages' texts in ascending order of index, and pages of equal index keep their input order: with
  ties the output depends on the input order.
\<close>

theorem reconcile_order:
  "(mset ps' = mset ps \<and> distinct (map index ps) \<longrightarrow>
      combineMarkdownWithImages w \<lparr>pages = Some ps'\<rparr> b f
        = combineMarkdownWithImages w \<lparr>pages = Some ps\<rparr> b f)
   \<and> fst (combineMarkdownWithImages w \<lparr>pages = Some ps\<rparr> b f)
        = concat (map (rendered_page b f) (sort_key index ps))
   \<and> sorted (map index (sort_key index ps))
   \<and> mset (sort_key index ps) = mset ps
   \<and> filter (\<lambda>p. index p = k) (sort_key index ps) = filter (\<lambda>p. index p = k) ps"
proof -
  have "combineMarkdownWithImages w \<lparr>pages = Some ps'\<rparr> b f
        = combineMarkdownWithImages w \<lparr>pages = Some ps\<rparr> b f"
    if "mset ps' = mset ps" and "distinct (map index ps)"
    using sort_key_distinct_perm [OF that] by (simp add: combineMarkdownWithImages_def)
  moreover have "filter (\<lambda>p. index p = k) (sort_key index ps) = filter (\<lambda>p. index p = k) ps"
    by (rule sort_key_stable)
  ultimately show ?thesis
    by (simp add: fst_combine)
qed

text \<open>The two pages of the scenario, in both orders.\<close>

theorem reconcile_order_witness:
  "mset [page_zero jpeg_payload, page_one] = mset [page_one, page_zero jpeg_payload]
   \<and> distinct (map index [page_one, page_zero jpeg_payload])
   \<and> combineMarkdownWithImages empty_world \<lparr>pages = Some [page_zero jpeg_payload, page_one]\<rparr>
         ''doc'' ''imgs''
       = combineMarkdownWithImages empty_world \<lparr>pages = Some [page_one, page_zero jpeg_payload]\<rparr>
           ''doc'' ''imgs''"
proof -
  have h1: "mset [page_zero jpeg_payload, page_one] = mset [page_one, page_zero jpeg_payload]"
    by simp
  have h2: "distinct (map index [page_one, page_zero jpeg_payload])"
    by (simp add: page_one_def page_zero_def)
  from reconcile_order [of "[page_zero jpeg_payload, page_one]" "[page_one, page_zero jpeg_payload]"
      empty_world "''doc''" "''imgs''" 0] h1 h2
  have "combineMarkdownWithImages empty_world \<lparr>pages = Some [page_zero jpeg_payload, page_one]\<rparr>
         ''doc'' ''imgs''
       = combineMarkdownWithImages empty_world \<lparr>pages = Some [page_one, page_zero jpeg_payload]\<rparr>
           ''doc'' ''imgs''"
    by blast
  with h1 h2 show ?thesis by blast
qed

text \<open>Two pages of index 0 in both orders: the markdown differs.\<close>

theorem reconcile_order_counterexample:
  "mset [tie_b, tie_a] = mset [tie_a, tie_b]
   \<and> fst (combineMarkdownWithImages empty_world \<lparr>pages = Some [tie_a, tie_b]\<rparr> ''doc'' ''imgs'')
       = ''A'' @ blank_line @ ''B'' @ blank_line
   \<and> fst (combineMarkdownWithImages empty_world \<lparr>pages = Some [tie_b, tie_a]\<rparr> ''doc'' ''imgs'')
       = ''B'' @ blank_line @ ''A'' @ blank_line
   \<and> fst (combineMarkdownWithImages empty_world \<lparr>pages = Some [tie_b, tie_a]\<rparr> ''doc'' ''imgs'')
       \<noteq> fst (combineMarkdownWithImages empty_world \<lparr>pages = Some [tie_a, tie_b]\<rparr> ''doc'' ''imgs'')"
  by (simp add: fst_combine tie_a_def tie_b_def rendered_plain blank_line_def)

section \<open>The input array\<close>

text \<open>
  Claim C9, as amended. combineMarkdownWithImages sorts the pages array of its input in
  place: after the call the array holds the same page objects, each unchanged, in ascending
  order of index, pages of equal index in their input order. The array is as it was exactly when
  it was in ascending order of index already; an OCR result without a pages array is left as it
  is.
\<close>

theorem pages_sorted_in_place:
  "fst (snd (combineMarkdownWithImages w ocrResult b f))
     = ocrResult\<lparr>pages := map_option (sort_key index) (pages ocrResult)\<rparr>
   \<and> mset (sort_key index ps) = mset ps
   \<and> sorted (map index (sort_key index ps))
   \<and> filter (\<lambda>p. index p = k) (sort_key index ps) = filter (\<lambda>p. index p = k) ps
   \<and> (sort_key index ps = ps) = sorted (map index ps)"
proof -
  have "fst (snd (combineMarkdownWithImages w ocrResult b f))
     = ocrResult\<lparr>pages := map_option (sort_key index) (pages ocrResult)\<rparr>"
    by (cases "pages ocrResult") (simp_all add: combineMarkdownWithImages_def Let_def)
  moreover have "filter (\<lambda>p. index p = k) (sort_key index ps) = filter (\<lambda>p. index p = k) ps"
    by (rule sort_key_stable)
  moreover have "(sort_key index ps = ps) = sorted (map index ps)"
    by (metis sorted_sort_key sort_key_id_if_sorted)
  ultimately show ?thesis by simp
qed

text \<open>The pages of the scenario come back in the other order.\<close>

theorem pages_sorted_in_place_witness:
  "pages (fst (snd (combineMarkdownWithImages empty_world
       \<lparr>pages = Some [page_one, page_zero jpeg_payload]\<rparr> ''doc'' ''imgs'')))
     = Some [page_zero jpeg_payload, page_one]"
proof -
  have "fst (snd (combineMarkdownWithImages empty_world
       \<lparr>pages = Some [page_one, page_zero jpeg_payload]\<rparr> ''doc'' ''imgs''))
     = \<lparr>pages = Some [page_one, page_zero jpeg_payload]\<rparr>
         \<lparr>pages := map_option (sort_key index) (pages \<lparr>pages = Some [page_one, page_zero jpeg_payload]\<rparr>)\<rparr>"
    using pages_sorted_in_place [of empty_world "\<lparr>pages = Some [page_one, page_zero jpeg_payload]\<rparr>"
      "''doc''" "''imgs''" "[]" 0]
    by blast
  then show ?thesis
    by (simp add: sorted_scenario del: sort_key_simps)
qed

theorem pages_sorted_in_place_counterexample:
  "pages (fst (snd (combineMarkdownWithImages empty_world
       \<lparr>pages = Some [page_one, page_zero jpeg_payload]\<rparr> ''doc'' ''imgs'')))
     \<noteq> pages \<lparr>pages = Some [page_one, page_zero jpeg_payload]\<rparr>"
  by (simp add: combineMarkdownWithImages_def Let_def sorted_scenario page_one_def page_zero_def)

section \<open>Payloads that are not written\<close>

lemma match_png:
  "match_image_ref ''img-0.jpeg'' ''![x](img-0.jpeg)'' = Some []"
  by (simp add: match_image_ref_def is_line_terminator_def)

lemma replace_png:
  "replace_image_refs ''img-0.jpeg'' rep [] ''![x](img-0.jpeg)''
     = GetSubstitution ''![x](img-0.jpeg)'' [] [] rep"
  by (simp add: match_png)

lemma malformed_payload_writes_nothing:
  "data_uri_body base64 = None \<Longrightarrow>
   snd (process_image b f (md, w) \<lparr>image_id = i, imageBase64 = Some base64\<rparr>) = w"
  by (simp add: process_image_def Let_def saveBase64Image_def
        del: replace_image_refs.simps strip_jpg_suffix.simps)

text \<open>
  Claim C4 at the payload \<^verbatim>\<open>data:image/png;base64,AAAA\<close>, which lacks the JPEG prefix: no file
  is written and the call returns, but the reference \<^verbatim>\<open>![x](img-0.jpeg)\<close> of the page is
  rewritten to a link to the file that was not written. (An empty payload and one ending in
  \<^verbatim>\<open>...\<close> leave the markdown and the vault as they are: \<open>process_image_skips\<close>.)
\<close>

theorem malformed_payload_still_rewritten:
  "combineMarkdownWithImages empty_world \<lparr>pages = Some [page_png]\<rparr> ''doc'' ''imgs''
     = (''![[imgs/doc_img-0.jpeg]]'' @ blank_line, \<lparr>pages = Some [page_png]\<rparr>, empty_world)
   \<and> data_uri_body png_payload = None"
proof -
  have ne: "png_payload \<noteq> []" by (simp add: png_payload_def)
  have link: "''![['' @ forward_slashes (''imgs'' @ ''/'' @ ''doc'' @ ''_'' @ ''img-0'' @ ''.jpeg'') @ '']]''
     = ''![[imgs/doc_img-0.jpeg]]''"
    by (simp add: forward_slashes_def backslash_def)
  have img: "process_image ''doc'' ''imgs'' (''![x](img-0.jpeg)'', empty_world)
          \<lparr>image_id = ''img-0.jpeg'', imageBase64 = Some png_payload\<rparr>
        = (''![[imgs/doc_img-0.jpeg]]'', empty_world)"
    unfolding process_image_rewrites [OF ne not_placeholder_png_payload] strip_scenario link
      replace_png saveBase64Image_invalid [OF data_uri_body_png_payload]
    by simp
  have "process_page ''doc'' ''imgs'' ([], empty_world) page_png
          = (''![[imgs/doc_img-0.jpeg]]'' @ blank_line, empty_world)"
    by (simp add: process_page_def page_png_def img Let_def)
  then show ?thesis
    by (simp add: combineMarkdownWithImages_def Let_def page_png_def data_uri_body_png_payload)
qed

section \<open>The guard of processPDFInternal\<close>

lemma targetMdPath_eq:
  "targetMdPath cfg b =
     (if trim (markdownOutputFolder cfg) = [] then b @ ''.md''
      else trim (markdownOutputFolder cfg) @ ''/'' @ b @ ''.md'')"
  by (simp add: targetMdPath_def Let_def)

lemma processPDFInternal_guard:
  "entries w (targetMdPath cfg b) \<noteq> None \<Longrightarrow>
   processPDFInternal cfg client w content b orig
     = (Returned, notify w (NoticeAlreadyExists (targetMdPath cfg b)))"
  by (simp add: processPDFInternal_def targetMdPath_def Let_def)

lemma processPDFInternal_creates:
  assumes "entries w (targetMdPath cfg b) = None"
    and "fst (processPDFInternal cfg client w content b orig) = Returned"
  shows "\<exists>md. entries (snd (processPDFInternal cfg client w content b orig)) (targetMdPath cfg b)
           = Some (File (Data md))"
  using assms
  by (auto simp: processPDFInternal_def targetMdPath_def Let_def vault_create_def
        split: if_splits sum.splits)

lemma trim_empty:
  "trim [] = []"
  by (simp add: trim_def)

lemma targetMdPath_test_settings:
  "targetMdPath test_settings ''doc'' = ''doc.md''"
  by (simp add: targetMdPath_eq test_settings_def trim_empty)

text \<open>
  Claim C1, as amended. When the destination markdown path (the trimmed folder setting, a
  slash and \<^verbatim>\<open><baseName>.md\<close>, or bare \<^verbatim>\<open><baseName>.md\<close> when the trimmed setting is empty) holds
  a file or a folder, processPDFInternal shows the notice
  \<^verbatim>\<open>Error: "<path>" already exists. Processing stopped.\<close> and returns without throwing. It does
  nothing else: no call of the Mistral client (no upload), no change of the vault (no image file,
  no folder, and what the destination holds stays as it is).
\<close>

theorem guard_existing_destination:
  assumes "entries w (targetMdPath cfg b) \<noteq> None"
  shows "processPDFInternal cfg client w content b orig
           = (Returned, w\<lparr>notices := notices w @ [NoticeAlreadyExists (targetMdPath cfg b)]\<rparr>)
         \<and> remote_calls (snd (processPDFInternal cfg client w content b orig)) = remote_calls w
         \<and> entries (snd (processPDFInternal cfg client w content b orig)) = entries w"
  using processPDFInternal_guard [OF assms] by (simp add: notify_def)

text \<open>The vault holds \<^verbatim>\<open>doc.md\<close>, and \<^verbatim>\<open>doc.pdf\<close> is ingested.\<close>

theorem guard_existing_destination_witness:
  "entries vault_with_output (targetMdPath test_settings ''doc'') \<noteq> None
   \<and> processPDFInternal test_settings offline_client vault_with_output (Data ''%PDF'') ''doc''
         ''doc.pdf''
       = (Returned, vault_with_output\<lparr>notices := [NoticeAlreadyExists ''doc.md'']\<rparr>)"
proof -
  have h: "entries vault_with_output (targetMdPath test_settings ''doc'') \<noteq> None"
    by (simp add: targetMdPath_test_settings vault_with_output_def)
  from guard_existing_destination [OF h, of offline_client "Data ''%PDF''" "''doc.pdf''"]
  have "processPDFInternal test_settings offline_client vault_with_output (Data ''%PDF'') ''doc''
         ''doc.pdf''
       = (Returned, vault_with_output\<lparr>notices := [NoticeAlreadyExists ''doc.md'']\<rparr>)"
    by (simp add: targetMdPath_test_settings vault_with_output_def)
  with h show ?thesis by blast
qed

text \<open>
  The same ingestion does not fail: processPDFInternal returns, and processPDFfromTFile goes on
  to its Success notice and returns as well, where a failure would throw.
\<close>

theorem guard_existing_destination_counterexample:
  "fst (processPDFInternal test_settings offline_client vault_with_output (Data ''%PDF'') ''doc''
          ''doc.pdf'') = Returned
   \<and> processPDFfromTFile test_settings offline_client vault_with_output doc_pdf
       = (Returned,
          vault_with_output\<lparr>notices := [NoticeStarting ''doc.pdf'', NoticeAlreadyExists ''doc.md'',
                                          NoticeSuccess ''doc.pdf'']\<rparr>)"
proof -
  have h: "entries (notify vault_with_output (NoticeStarting ''doc.pdf''))
             (targetMdPath test_settings ''doc'') \<noteq> None"
    by (simp add: targetMdPath_test_settings vault_with_output_def notify_def)
  have h': "entries vault_with_output (targetMdPath test_settings ''doc'') \<noteq> None"
    by (simp add: targetMdPath_test_settings vault_with_output_def)
  have rd: "entries (notify vault_with_output (NoticeStarting ''doc.pdf'')) ''doc.pdf''
              = Some (File (Data ''%PDF''))"
    by (simp add: vault_with_output_def notify_def)
  show ?thesis
    unfolding processPDFfromTFile_def Let_def doc_pdf_def tfile.simps rd
      processPDFInternal_guard [OF h] processPDFInternal_guard [OF h'] targetMdPath_test_settings
    by (simp add: notify_def vault_with_output_def)
qed

section \<open>The names of the files\<close>

lemma trim_spaced:
  "trim '' out'' = ''out''"
  by (simp add: trim_def is_white_space_def)

lemma no_suffix_of_img:
  "''img'' = s @ ext \<Longrightarrow> \<not> jpg_suffix ext"
proof
  assume a: "''img'' = s @ ext" and j: "jpg_suffix ext"
  from a have "length (s @ ext) = 3" by (metis length_Cons list.size(3) numeral_3_eq_3)
  then have "length ext \<le> 3" by simp
  with jpg_suffix_length [OF j] show False by auto
qed

lemma ingest_page_one:
  "processPDFInternal test_settings (ocr_client \<lparr>pages = Some [page_one]\<rparr>) vault_with_pdf
       (Data ''%PDF'') ''doc'' ''doc.pdf''
     = (Returned,
        \<lparr>entries = [''doc.pdf'' \<mapsto> File (Data ''%PDF''), ''pdf-mistral-images'' \<mapsto> Folder,
                    ''doc.md'' \<mapsto> File (Data (''B'' @ blank_line))],
         notices = [],
         remote_calls = [Upload ''doc.pdf'', GetSignedUrl ''file-1'', OcrProcess ''signed-url'']\<rparr>)"
proof -
  have img: "finalImagesPath test_settings = ''pdf-mistral-images''"
    by (simp add: finalImagesPath_def test_settings_def trim_def is_white_space_def Let_def)
  have trim_key: "trim ''key'' = ''key''"
    by (simp add: trim_def is_white_space_def)
  have cl: "strip_slashes (trim ''pdf-mistral-images'') = ''pdf-mistral-images''"
    by (simp add: strip_slashes_def trim_def is_white_space_def Let_def)
  have cmb: "combineMarkdownWithImages w \<lparr>pages = Some [page_one]\<rparr> ''doc'' ''pdf-mistral-images''
     = (''B'' @ blank_line, \<lparr>pages = Some [page_one]\<rparr>, w)" for w
    by (simp add: combineMarkdownWithImages_def process_page_def page_one_def Let_def)
  show ?thesis
    unfolding processPDFInternal_def Let_def img
    by (simp add: test_settings_def trim_empty trim_key ocr_client_def vault_with_pdf_def called_def
          createFolderIfNotExists_def cl cmb vault_create_def Let_def)
qed

text \<open>
  Claim C6, as amended. An image whose payload is a JPEG data URI (and no truncation
  placeholder) is written at \<^verbatim>\<open>{imagesFolder}/{baseName}_{id'}.jpeg\<close>, where \<^verbatim>\<open>id'\<close> is the
  placeholder id without one trailing \<^verbatim>\<open>.jpg\<close> or \<^verbatim>\<open>.jpeg\<close>, in any mix of upper and lower
  case, and the id itself when it has no such suffix. The destination markdown path is
  \<^verbatim>\<open>{folder}/{baseName}.md\<close> with \<^verbatim>\<open>folder\<close> the markdown folder setting trimmed of white space,
  or bare \<^verbatim>\<open>{baseName}.md\<close> when the trimmed setting is empty; an ingestion that passes the
  guard and returns has created the markdown file there. Every image reference that is rewritten
  is replaced by a replacement text built from \<^verbatim>\<open>![[path]]\<close>, where \<^verbatim>\<open>path\<close> is the image path with
  every backslash turned into a forward slash; when the images folder, the base name and the id
  hold no dollar sign, the replacement text is \<^verbatim>\<open>![[path]]\<close> itself.
\<close>

theorem file_naming_contract:
  "(data_uri_body payload = Some body \<and> \<not> endsWith payload ''...'' \<longrightarrow>
      process_image b f (md, w) \<lparr>image_id = i, imageBase64 = Some payload\<rparr>
        = (replace_image_refs i
             (''![['' @ forward_slashes (f @ ''/'' @ b @ ''_'' @ strip_jpg_suffix i @ ''.jpeg'') @ '']]'')
             [] md,
           w\<lparr>entries := (entries w)(f @ ''/'' @ b @ ''_'' @ strip_jpg_suffix i @ ''.jpeg''
                                         \<mapsto> File (Base64Decoded body))\<rparr>))
   \<and> (jpg_suffix ext \<longrightarrow> strip_jpg_suffix (s @ ext) = s)
   \<and> ((\<forall>s ext. j = s @ ext \<longrightarrow> \<not> jpg_suffix ext) \<longrightarrow> strip_jpg_suffix j = j)
   \<and> (CHR ''$'' \<notin> set f \<and> CHR ''$'' \<notin> set b \<and> CHR ''$'' \<notin> set i \<longrightarrow>
        GetSubstitution matched seen rest
          (''![['' @ forward_slashes (f @ ''/'' @ b @ ''_'' @ strip_jpg_suffix i @ ''.jpeg'') @ '']]'')
        = ''![['' @ forward_slashes (f @ ''/'' @ b @ ''_'' @ strip_jpg_suffix i @ ''.jpeg'') @ '']]'')
   \<and> backslash \<notin> set (forward_slashes (f @ ''/'' @ b @ ''_'' @ strip_jpg_suffix i @ ''.jpeg''))
   \<and> targetMdPath cfg b =
        (if trim (markdownOutputFolder cfg) = [] then b @ ''.md''
         else trim (markdownOutputFolder cfg) @ ''/'' @ b @ ''.md'')
   \<and> (entries v (targetMdPath cfg b) = None
         \<and> fst (processPDFInternal cfg client v content b orig) = Returned \<longrightarrow>
       (\<exists>finalMd. entries (snd (processPDFInternal cfg client v content b orig)) (targetMdPath cfg b)
                    = Some (File (Data finalMd))))"
proof -
  have written: "process_image b f (md, w) \<lparr>image_id = i, imageBase64 = Some payload\<rparr>
        = (replace_image_refs i
             (''![['' @ forward_slashes (f @ ''/'' @ b @ ''_'' @ strip_jpg_suffix i @ ''.jpeg'') @ '']]'')
             [] md,
           w\<lparr>entries := (entries w)(f @ ''/'' @ b @ ''_'' @ strip_jpg_suffix i @ ''.jpeg''
                                         \<mapsto> File (Base64Decoded body))\<rparr>)"
    if v: "data_uri_body payload = Some body" and p: "\<not> endsWith payload ''...''"
    unfolding process_image_rewrites [OF data_uri_body_nonempty [OF v] p]
    by (simp add: saveBase64Image_def v)
  have keeps: "strip_jpg_suffix j = j" if "\<forall>s ext. j = s @ ext \<longrightarrow> \<not> jpg_suffix ext"
    using that by (intro strip_jpg_suffix_keeps) blast
  have verbatim: "GetSubstitution matched seen rest
          (''![['' @ forward_slashes (f @ ''/'' @ b @ ''_'' @ strip_jpg_suffix i @ ''.jpeg'') @ '']]'')
        = ''![['' @ forward_slashes (f @ ''/'' @ b @ ''_'' @ strip_jpg_suffix i @ ''.jpeg'') @ '']]''"
    if "CHR ''$'' \<notin> set f" and "CHR ''$'' \<notin> set b" and "CHR ''$'' \<notin> set i"
  proof (rule GetSubstitution_no_dollar)
    from that(3) set_strip_jpg_suffix [of i] have "CHR ''$'' \<notin> set (strip_jpg_suffix i)" by blast
    with that(1,2)
    show "CHR ''$'' \<notin> set (''![['' @ forward_slashes (f @ ''/'' @ b @ ''_'' @ strip_jpg_suffix i @ ''.jpeg'') @ '']]'')"
      by (simp add: dollar_forward_slashes)
  qed
  from written strip_jpg_suffix_removes keeps verbatim no_backslash_forward_slashes
    targetMdPath_eq processPDFInternal_creates
  show ?thesis by blast
qed

text \<open>
  The image of the scenario, the ids \<^verbatim>\<open>img-0.JPG\<close> and \<^verbatim>\<open>img\<close>, and the ingestion of
  \<^verbatim>\<open>doc.pdf\<close> into a vault without \<^verbatim>\<open>doc.md\<close>.
\<close>

theorem file_naming_contract_witness:
  "data_uri_body jpeg_payload = Some ''AAAA'' \<and> \<not> endsWith jpeg_payload ''...''
   \<and> snd (process_image ''doc'' ''imgs'' (''![x](img-0.jpeg)'', empty_world)
            \<lparr>image_id = ''img-0.jpeg'', imageBase64 = Some jpeg_payload\<rparr>)
       = empty_world\<lparr>entries := [''imgs/doc_img-0.jpeg'' \<mapsto> File (Base64Decoded ''AAAA'')]\<rparr>
   \<and> jpg_suffix ''.JPG'' \<and> strip_jpg_suffix ''img-0.JPG'' = ''img-0''
   \<and> strip_jpg_suffix ''img'' = ''img''
   \<and> GetSubstitution ''![x](img-0.jpeg)'' [] [] ''![[imgs/doc_img-0.jpeg]]''
       = ''![[imgs/doc_img-0.jpeg]]''
   \<and> targetMdPath test_settings ''doc'' = ''doc.md''
   \<and> entries vault_with_pdf (targetMdPath test_settings ''doc'') = None
   \<and> fst (processPDFInternal test_settings (ocr_client \<lparr>pages = Some [page_one]\<rparr>) vault_with_pdf
            (Data ''%PDF'') ''doc'' ''doc.pdf'') = Returned
   \<and> (\<exists>finalMd. entries (snd (processPDFInternal test_settings
                      (ocr_client \<lparr>pages = Some [page_one]\<rparr>) vault_with_pdf (Data ''%PDF'') ''doc''
                      ''doc.pdf'')) ''doc.md''
                  = Some (File (Data finalMd)))"
proof -
  note c = file_naming_contract [where ?payload = jpeg_payload and ?body = "''AAAA''"
      and ?b = "''doc''" and ?f = "''imgs''" and ?md = "''![x](img-0.jpeg)''" and ?w = empty_world
      and ?i = "''img-0.jpeg''" and ?ext = "''.JPG''" and ?s = "''img-0''" and ?j = "''img''"
      and ?matched = "''![x](img-0.jpeg)''" and ?seen = "[]" and ?rest = "[]"
      and ?cfg = test_settings and ?v = vault_with_pdf and ?client = "ocr_client \<lparr>pages = Some [page_one]\<rparr>"
      and ?content = "Data ''%PDF''" and ?orig = "''doc.pdf''"]
  have j: "jpg_suffix ''.JPG''" by (simp add: same_letter_def)
  have d: "CHR ''$'' \<notin> set ''imgs'' \<and> CHR ''$'' \<notin> set ''doc'' \<and> CHR ''$'' \<notin> set ''img-0.jpeg''"
    by simp
  have n: "\<forall>s ext. ''img'' = s @ ext \<longrightarrow> \<not> jpg_suffix ext"
    using no_suffix_of_img by blast
  have e: "entries vault_with_pdf (targetMdPath test_settings ''doc'') = None"
    by (simp add: targetMdPath_test_settings vault_with_pdf_def)
  have r: "fst (processPDFInternal test_settings (ocr_client \<lparr>pages = Some [page_one]\<rparr>)
             vault_with_pdf (Data ''%PDF'') ''doc'' ''doc.pdf'') = Returned"
    by (simp add: ingest_page_one)
  have p: "''imgs'' @ ''/'' @ ''doc'' @ ''_'' @ strip_jpg_suffix ''img-0.jpeg'' @ ''.jpeg''
             = ''imgs/doc_img-0.jpeg''"
    by (simp add: strip_scenario del: strip_jpg_suffix.simps)
  have fs: "forward_slashes ''imgs/doc_img-0.jpeg'' = ''imgs/doc_img-0.jpeg''"
    by (simp add: forward_slashes_def backslash_def)
  from c data_uri_body_jpeg_payload not_placeholder_jpeg_payload
  have c1: "snd (process_image ''doc'' ''imgs'' (''![x](img-0.jpeg)'', empty_world)
            \<lparr>image_id = ''img-0.jpeg'', imageBase64 = Some jpeg_payload\<rparr>)
       = empty_world\<lparr>entries := [''imgs/doc_img-0.jpeg'' \<mapsto> File (Base64Decoded ''AAAA'')]\<rparr>"
    unfolding p by (simp add: empty_world_def)
  from c j have c2: "strip_jpg_suffix (''img-0'' @ ''.JPG'') = ''img-0''" by blast
  from c n have c3: "strip_jpg_suffix ''img'' = ''img''" by blast
  from c d have c4: "GetSubstitution ''![x](img-0.jpeg)'' [] [] ''![[imgs/doc_img-0.jpeg]]''
       = ''![[imgs/doc_img-0.jpeg]]''"
    unfolding p fs by simp
  from c have c5: "targetMdPath test_settings ''doc'' =
        (if trim (markdownOutputFolder test_settings) = [] then ''doc'' @ ''.md''
         else trim (markdownOutputFolder test_settings) @ ''/'' @ ''doc'' @ ''.md'')"
    by blast
  from c e r have c6: "\<exists>finalMd. entries (snd (processPDFInternal test_settings
                      (ocr_client \<lparr>pages = Some [page_one]\<rparr>) vault_with_pdf (Data ''%PDF'') ''doc''
                      ''doc.pdf'')) (targetMdPath test_settings ''doc'')
                  = Some (File (Data finalMd))"
    by blast
  from c5 have c5': "targetMdPath test_settings ''doc'' = ''doc.md''"
    by (simp add: test_settings_def trim_empty)
  from c2 have c2': "strip_jpg_suffix ''img-0.JPG'' = ''img-0''" by simp
  from c6 have c6': "\<exists>finalMd. entries (snd (processPDFInternal test_settings
                      (ocr_client \<lparr>pages = Some [page_one]\<rparr>) vault_with_pdf (Data ''%PDF'') ''doc''
                      ''doc.pdf'')) ''doc.md''
                  = Some (File (Data finalMd))"
    unfolding c5' .
  from e have e': "entries vault_with_pdf (targetMdPath test_settings ''doc'') = None" .
  from data_uri_body_jpeg_payload not_placeholder_jpeg_payload c1 j c2' c3 c4 c5' e' r c6'
  show ?thesis by blast
qed

text \<open>
  The folder setting \<^verbatim>\<open> out\<close> (with a leading blank) gives the destination \<^verbatim>\<open>out/doc.md\<close>; and
  with the base name \<^verbatim>\<open>d$&\<close> the image is written at \<^verbatim>\<open>imgs/d$&_img-0.jpeg\<close> while the reference
  is rewritten to a text that holds the old reference in place of \<^verbatim>\<open>$&\<close>.
\<close>

theorem file_naming_contract_counterexample:
  "targetMdPath spaced_settings ''doc'' = ''out/doc.md''
   \<and> targetMdPath spaced_settings ''doc'' \<noteq> markdownOutputFolder spaced_settings @ ''/doc.md''
   \<and> process_image ''d$&'' ''imgs'' (''![x](img-0.jpeg)'', empty_world)
         \<lparr>image_id = ''img-0.jpeg'', imageBase64 = Some jpeg_payload\<rparr>
       = (''![[imgs/d![x](img-0.jpeg)_img-0.jpeg]]'',
          empty_world\<lparr>entries := [''imgs/d$&_img-0.jpeg'' \<mapsto> File (Base64Decoded ''AAAA'')]\<rparr>)
   \<and> ''![[imgs/d![x](img-0.jpeg)_img-0.jpeg]]'' \<noteq> ''![[imgs/d$&_img-0.jpeg]]''"
proof -
  have ne: "jpeg_payload \<noteq> []" by (simp add: jpeg_payload_def)
  have t: "targetMdPath spaced_settings ''doc'' = ''out/doc.md''"
    by (simp add: targetMdPath_eq spaced_settings_def trim_spaced)
  have p: "''imgs'' @ ''/'' @ ''d$&'' @ ''_'' @ ''img-0'' @ ''.jpeg'' = ''imgs/d$&_img-0.jpeg''"
    by simp
  have fs: "forward_slashes ''imgs/d$&_img-0.jpeg'' = ''imgs/d$&_img-0.jpeg''"
    by (simp add: forward_slashes_def backslash_def)
  have "process_image ''d$&'' ''imgs'' (''![x](img-0.jpeg)'', empty_world)
         \<lparr>image_id = ''img-0.jpeg'', imageBase64 = Some jpeg_payload\<rparr>
       = (''![[imgs/d![x](img-0.jpeg)_img-0.jpeg]]'',
          empty_world\<lparr>entries := [''imgs/d$&_img-0.jpeg'' \<mapsto> File (Base64Decoded ''AAAA'')]\<rparr>)"
    unfolding process_image_rewrites [OF ne not_placeholder_jpeg_payload] strip_scenario p fs
      replace_png
    by (simp add: saveBase64Image_def data_uri_body_jpeg_payload empty_world_def)
  with t show ?thesis by (simp add: spaced_settings_def)
qed

section \<open>The batch of the selection modal\<close>

lemma filter_update_count:
  "i < length xs \<Longrightarrow>
   length (filter P (xs[i := y])) + (if P (xs ! i) then 1 else 0)
     = length (filter P xs) + (if P y then 1 else 0)"
proof (induction xs arbitrary: i)
  case Nil
  then show ?case by simp
next
  case (Cons x xs)
  then show ?case by (cases i) auto
qed

lemma list_ex_update:
  "i < length xs \<Longrightarrow> list_ex P (xs[i := y]) \<Longrightarrow> P y \<or> list_ex P xs"
  by (auto simp: list_ex_iff dest: set_update_subset_insert [THEN subsetD])

lemma batch_inv_step:
  assumes "batch_inv docs k b"
  shows "batch_inv docs k (worker_step b ev)"
proof -
  obtain i resolved where ev: "ev = (i, resolved)" by (cases ev)
  show ?thesis
  proof (cases "length (workers b) \<le> i")
    case True
    with assms show ?thesis by (simp add: worker_step_def ev)
  next
    case False
    then have i: "i < length (workers b)" by simp
    note cnt = filter_update_count [OF i, of is_awaiting]
    show ?thesis
    proof (cases "workers b ! i")
      case Ready
      show ?thesis
      proof (cases "queue b")
        case Nil
        with assms Ready i cnt [of Finished] show ?thesis
          by (auto simp: worker_step_def ev batch_inv_def is_awaiting_def)
      next
        case (Cons d rest)
        have nf: "\<not> list_ex is_finished (workers b)"
          using assms Cons by (auto simp: batch_inv_def)
        have "\<not> list_ex is_finished ((workers b)[i := Awaiting d])"
          using list_ex_update [OF i, of is_finished "Awaiting d"] nf
          by (auto simp: is_finished_def)
        with assms Ready i Cons cnt [of "Awaiting d"] show ?thesis
          by (auto simp: worker_step_def ev batch_inv_def is_awaiting_def)
      qed
    next
      case (Awaiting d)
      have "list_ex is_finished ((workers b)[i := Ready]) \<Longrightarrow> list_ex is_finished (workers b)"
        using list_ex_update [OF i, of is_finished Ready] by (auto simp: is_finished_def)
      with assms Awaiting i cnt [of Ready] show ?thesis
        by (auto simp: worker_step_def ev batch_inv_def is_awaiting_def)
    next
      case Finished
      with assms i show ?thesis by (simp add: worker_step_def ev)
    qed
  qed
qed

lemma batch_inv_foldl:
  "batch_inv docs k b \<Longrightarrow> batch_inv docs k (foldl worker_step b evs)"
  by (induction evs arbitrary: b) (auto intro: batch_inv_step)

lemma batch_inv_start:
  "batch_inv docs k (start_batch docs k)"
  by (simp add: batch_inv_def start_batch_def is_awaiting_def is_finished_def list_ex_iff)

lemma batch_inv_run:
  "batch_inv docs k (run_batch docs k evs)"
  unfolding run_batch_def by (rule batch_inv_foldl) (rule batch_inv_start)

lemma finished_not_awaiting:
  "list_all is_finished ws \<Longrightarrow> filter is_awaiting ws = []"
  by (induction ws) (auto simp: is_finished_def is_awaiting_def split: worker.splits)

text \<open>
  Claim C5. A batch of N selected files run by K workers, K at least 1: in every interleaving
  of the workers and for every mix of ingestions that resolve or throw, once all workers have
  finished, successCount + failureCount = N, and the files passed to processPDFfromTFile are the
  selected files, each once, in the order of the selection.
\<close>

theorem batch_counts:
  assumes "1 \<le> k" and "all_finished (run_batch docs k evs)"
  shows "successCount (run_batch docs k evs) + failureCount (run_batch docs k evs) = length docs
         \<and> ingested (run_batch docs k evs) = docs"
proof -
  let ?b = "run_batch docs k evs"
  have inv: "batch_inv docs k ?b" by (rule batch_inv_run)
  then have len: "length (workers ?b) = k" by (simp add: batch_inv_def)
  with assms(1) have "workers ?b \<noteq> []" by auto
  with assms(2) have "list_ex is_finished (workers ?b)"
    by (cases "workers ?b") (auto simp: all_finished_def)
  with inv have q: "queue ?b = []" by (simp add: batch_inv_def)
  with inv have ing: "ingested ?b = docs" by (simp add: batch_inv_def)
  from assms(2) have "filter is_awaiting (workers ?b) = []"
    unfolding all_finished_def by (rule finished_not_awaiting)
  with inv ing show ?thesis by (simp add: batch_inv_def)
qed

text \<open>
  Three files and two workers; the ingestion of \<^verbatim>\<open>b\<close> throws, the other two resolve.
\<close>

theorem batch_counts_witness:
  "(1::nat) \<le> 2
   \<and> all_finished (run_batch [''a'', ''b'', ''c''] 2
         [(0, True), (1, True), (1, False), (0, True), (1, True), (0, True), (1, True), (1, True)])
   \<and> successCount (run_batch [''a'', ''b'', ''c''] 2
         [(0, True), (1, True), (1, False), (0, True), (1, True), (0, True), (1, True), (1, True)])
       + failureCount (run_batch [''a'', ''b'', ''c''] 2
         [(0, True), (1, True), (1, False), (0, True), (1, True), (0, True), (1, True), (1, True)])
       = 3
   \<and> ingested (run_batch [''a'', ''b'', ''c''] 2
         [(0, True), (1, True), (1, False), (0, True), (1, True), (0, True), (1, True), (1, True)])
       = [''a'', ''b'', ''c'']"
proof -
  let ?evs = "[(0, True), (1, True), (1, False), (0, True), (1, True), (0, True), (1, True),
               (1::nat, True)]"
  have h1: "(1::nat) \<le> 2" by simp
  have run: "run_batch [''a'', ''b'', ''c''] 2 ?evs
     = \<lparr>queue = [], successCount = 2, failureCount = 1, workers = [Finished, Finished],
        ingested = [''a'', ''b'', ''c'']\<rparr>"
    by (simp add: run_batch_def start_batch_def worker_step_def numeral_2_eq_2)
  have h2: "all_finished (run_batch [''a'', ''b'', ''c''] 2 ?evs)"
    unfolding run by (simp add: all_finished_def is_finished_def)
  from batch_counts [OF h1 h2] have "successCount (run_batch [''a'', ''b'', ''c''] 2 ?evs)
       + failureCount (run_batch [''a'', ''b'', ''c''] 2 ?evs) = 3
     \<and> ingested (run_batch [''a'', ''b'', ''c''] 2 ?evs) = [''a'', ''b'', ''c'']"
    by simp
  with h1 h2 show ?thesis by blast
qed

text \<open>
  The workers can always finish: for every mix of outcomes there is a run, of at least one
  worker, after which all workers have finished, with one success for every file whose ingestion
  resolves and one failure for every file whose ingestion throws.
\<close>

lemma drain_run:
  assumes "workers b ! 0 = Ready" and "0 < length (workers b)" and "queue b = ds"
  shows "foldl worker_step b (drain ok ds)
           = b\<lparr>queue := [],
               successCount := successCount b + length (filter ok ds),
               failureCount := failureCount b + length (filter (\<lambda>d. \<not> ok d) ds),
               ingested := ingested b @ ds\<rparr>"
  using assms
proof (induction ds arbitrary: b)
  case Nil
  then show ?case by (simp add: drain_def)
next
  case (Cons d ds)
  let ?b1 = "worker_step b (0, ok d)"
  let ?b2 = "worker_step ?b1 (0, ok d)"
  have b1: "?b1 = b\<lparr>queue := ds, workers := (workers b)[0 := Awaiting d],
                     ingested := ingested b @ [d]\<rparr>"
    using Cons.prems by (simp add: worker_step_def)
  have w: "(workers b)[0 := Ready] = workers b"
    using Cons.prems(1,2) by (simp add: list_update_same_conv)
  have b2: "?b2 = (if ok d
                   then b\<lparr>queue := ds, successCount := successCount b + 1,
                          ingested := ingested b @ [d]\<rparr>
                   else b\<lparr>queue := ds, failureCount := failureCount b + 1,
                          ingested := ingested b @ [d]\<rparr>)"
    unfolding b1 using Cons.prems(2) by (simp add: worker_step_def w)
  have "foldl worker_step b (drain ok (d # ds)) = foldl worker_step ?b2 (drain ok ds)"
    by (simp add: drain_def)
  also have "\<dots> = ?b2\<lparr>queue := [],
               successCount := successCount ?b2 + length (filter ok ds),
               failureCount := failureCount ?b2 + length (filter (\<lambda>d. \<not> ok d) ds),
               ingested := ingested ?b2 @ ds\<rparr>"
    by (rule Cons.IH) (use Cons.prems b2 in \<open>auto split: if_splits\<close>)
  also have "\<dots> = b\<lparr>queue := [],
               successCount := successCount b + length (filter ok (d # ds)),
               failureCount := failureCount b + length (filter (\<lambda>d. \<not> ok d) (d # ds)),
               ingested := ingested b @ d # ds\<rparr>"
    unfolding b2 by simp
  finally show ?case .
qed

lemma finish_run:
  assumes "queue b = []" and "workers b = replicate k Ready" and "j \<le> k"
  shows "foldl worker_step b (map (\<lambda>i. (i, True)) [0..<j])
           = b\<lparr>workers := replicate j Finished @ replicate (k - j) Ready\<rparr>"
  using assms(3)
proof (induction j)
  case 0
  then show ?case using assms(2) by simp
next
  case (Suc j)
  then have j: "j < k" by simp
  let ?b = "b\<lparr>workers := replicate j Finished @ replicate (k - j) Ready\<rparr>"
  have "foldl worker_step b (map (\<lambda>i. (i, True)) [0..<Suc j]) = worker_step ?b (j, True)"
    using Suc by simp
  also have "\<dots> = b\<lparr>workers := (replicate j Finished @ replicate (k - j) Ready)[j := Finished]\<rparr>"
    using j assms(1) by (simp add: worker_step_def nth_append)
  also have "(replicate j Finished @ replicate (k - j) Ready)[j := Finished]
               = replicate (Suc j) Finished @ replicate (k - Suc j) (Ready :: 'a worker)"
  proof -
    from j obtain m where m: "k - j = Suc m" by (cases "k - j") auto
    then have "k - Suc j = m" by simp
    with m show ?thesis by (simp add: list_update_append replicate_append_same)
  qed
  finally show ?case .
qed

lemma batch_can_finish:
  assumes "1 \<le> k"
  shows "\<exists>evs. all_finished (run_batch docs k evs)
           \<and> successCount (run_batch docs k evs) = length (filter ok docs)
           \<and> failureCount (run_batch docs k evs) = length (filter (\<lambda>d. \<not> ok d) docs)"
proof -
  let ?b0 = "start_batch docs k"
  let ?b1 = "foldl worker_step ?b0 (drain ok docs)"
  let ?evs = "drain ok docs @ map (\<lambda>i. (i, True)) [0..<k]"
  have b1: "?b1 = ?b0\<lparr>queue := [],
               successCount := successCount ?b0 + length (filter ok docs),
               failureCount := failureCount ?b0 + length (filter (\<lambda>d. \<not> ok d) docs),
               ingested := ingested ?b0 @ docs\<rparr>"
    by (rule drain_run) (use assms in \<open>simp_all add: start_batch_def\<close>)
  have "run_batch docs k ?evs = foldl worker_step ?b1 (map (\<lambda>i. (i, True)) [0..<k])"
    by (simp add: run_batch_def)
  also have "\<dots> = ?b1\<lparr>workers := replicate k Finished @ replicate (k - k) Ready\<rparr>"
    unfolding b1 by (rule finish_run) (simp_all add: start_batch_def)
  finally have r: "run_batch docs k ?evs = ?b1\<lparr>workers := replicate k Finished\<rparr>" by simp
  have "all_finished (run_batch docs k ?evs)"
    unfolding r by (simp add: all_finished_def is_finished_def list_all_iff)
  moreover have "successCount (run_batch docs k ?evs) = length (filter ok docs)"
    unfolding r b1 by (simp add: start_batch_def)
  moreover have "failureCount (run_batch docs k ?evs) = length (filter (\<lambda>d. \<not> ok d) docs)"
    unfolding r b1 by (simp add: start_batch_def)
  ultimately show ?thesis by blast
qed


section \<open>The keys of the note and of the settings\<close>

lemma set_object_keys:
  "set (object_keys pm) = fst ` set pm"
  by (auto simp: object_keys_def)

lemma set_promptMap_of_acc:
  "fst ` set (foldl (\<lambda>pm item. if keyComment item = ''__proto__'' then pm
                        else AList.update (keyComment item) (prompt item) pm) acc items)
     = fst ` set acc \<union> (keyComment ` set items - {''__proto__''})"
proof (induction items arbitrary: acc)
  case Nil
  show ?case by simp
next
  case (Cons item items)
  show ?case
    unfolding foldl_Cons Cons.IH by (auto simp: dom_update)
qed

lemma configured_keys:
  "set (object_keys (promptMap_of items)) = keyComment ` set items - {''__proto__''}"
  unfolding set_object_keys promptMap_of_def set_promptMap_of_acc by simp

lemma keysToProcess_empty:
  "keysToProcess cfg noteContent = [] \<longleftrightarrow>
     keysInNote noteContent \<inter> set (object_keys (promptMap_of (summaryPrompts cfg))) = {}"
  by (auto simp: keysToProcess_def filter_empty_conv)

lemma comment_matches_note_two:
  "comment_matches note_two = [(''<!-- summary -->'', ''summary''), (''<!--methods-->'', ''methods'')]"
  by (simp add: note_two_def match_comment_def comment_close_def is_white_space_def)

lemma comment_matches_note_other:
  "comment_matches note_other = [(''<!-- other -->'', ''other'')]"
  by (simp add: note_other_def match_comment_def comment_close_def is_white_space_def)

lemma trim_keys:
  "trim ''summary'' = ''summary''" "trim ''methods'' = ''methods''" "trim ''other'' = ''other''"
  by (simp_all add: trim_def is_white_space_def)

lemma promptMap_test_settings:
  "promptMap_of (summaryPrompts test_settings)
     = [(''summary'', ''Summarize.''), (''methods'', ''Describe the methods.'')]"
  by (simp add: promptMap_of_def test_settings_def)

lemma object_keys_test_settings:
  "object_keys (promptMap_of (summaryPrompts test_settings)) = [''summary'', ''methods'']"
  by (simp add: promptMap_test_settings object_keys_def is_array_index_def is_digit_def)

lemma keysInNote_note_two:
  "keysInNote note_two = {''summary'', ''methods''}"
  by (simp add: keysInNote_def comment_matches_note_two trim_keys)

lemma keysInNote_note_other:
  "keysInNote note_other = {''other''}"
  by (simp add: keysInNote_def comment_matches_note_other trim_keys)

lemma keysToProcess_note_two:
  "keysToProcess test_settings note_two = [''summary'', ''methods'']"
  by (simp add: keysToProcess_def keysInNote_note_two object_keys_test_settings)

lemma validMatches_note_two:
  "validMatches test_settings note_two
     = [(''<!-- summary -->'', ''summary''), (''<!--methods-->'', ''methods'')]"
  by (simp add: validMatches_def keysToProcess_note_two comment_matches_note_two trim_keys)

lemma promptText_summary:
  "promptText (promptMap_of (summaryPrompts test_settings)) src ''summary''
     = ''Summarize.'' @ blank_line @ ''---'' @ blank_line @ src"
  by (simp add: promptText_def promptMap_test_settings)

lemma promptText_methods:
  "promptText (promptMap_of (summaryPrompts test_settings)) src ''methods''
     = ''Describe the methods.'' @ blank_line @ ''---'' @ blank_line @ src"
  by (simp add: promptText_def promptMap_test_settings)

text \<open>
  Claim C8. When no key of the comments of the note is a key of the prompt map, the
  invocation shows one notice, which lists the keys of the prompt map joined by \<^verbatim>\<open>", "\<close>, and
  does nothing else: the generator is not called and the note is not modified. The keys of the
  prompt map are the keyComment values of the settings (but \<^verbatim>\<open>__proto__\<close>).
\<close>

theorem no_matching_keys:
  assumes "keysInNote noteContent \<inter> set (object_keys (promptMap_of (summaryPrompts cfg))) = {}"
  shows "processPdfAndSummarize cfg tg srcContent noteContent
           = [Notice (NoticeNoValidKeys
                (join '', '' (object_keys (promptMap_of (summaryPrompts cfg)))))]
         \<and> set (object_keys (promptMap_of (summaryPrompts cfg)))
             = keyComment ` set (summaryPrompts cfg) - {''__proto__''}"
  using assms by (simp add: processPdfAndSummarize_def keysToProcess_empty configured_keys)

text \<open>A note whose only comment is \<^verbatim>\<open><!-- other -->\<close>.\<close>

theorem no_matching_keys_witness:
  "keysInNote note_other \<inter> set (object_keys (promptMap_of (summaryPrompts test_settings))) = {}
   \<and> processPdfAndSummarize test_settings (Some gen_all_ok) ''SRC'' note_other
       = [Notice (NoticeNoValidKeys ''summary, methods'')]"
proof -
  have h: "keysInNote note_other
             \<inter> set (object_keys (promptMap_of (summaryPrompts test_settings))) = {}"
    by (simp add: keysInNote_note_other object_keys_test_settings)
  from no_matching_keys [OF h, of "Some gen_all_ok" "''SRC''"]
  have "processPdfAndSummarize test_settings (Some gen_all_ok) ''SRC'' note_other
       = [Notice (NoticeNoValidKeys ''summary, methods'')]"
    by (simp add: object_keys_test_settings)
  with h show ?thesis by blast
qed

section \<open>The loop over the keys\<close>

lemma loop_fails:
  "k < length ms \<Longrightarrow>
   (\<forall>j<k. \<exists>r. gen (n + j) (promptText pm src (snd (ms ! j))) = Inr r) \<Longrightarrow>
   gen (n + k) (promptText pm src (snd (ms ! k))) = Inl msg \<Longrightarrow>
   summarize_loop gen pm src n c ms
     = (map (\<lambda>m. Gen (promptText pm src (snd m))) (take (Suc k) ms) @ [Notice (NoticeApiError msg)],
        None)"
proof (induction ms arbitrary: n c k)
  case Nil
  then show ?case by simp
next
  case (Cons m ms)
  obtain fullComment key where m: "m = (fullComment, key)" by (cases m)
  show ?case
  proof (cases k)
    case 0
    with Cons.prems(3) show ?thesis by (simp add: m)
  next
    case (Suc k')
    from Cons.prems(2) Suc obtain r where r: "gen n (promptText pm src key) = Inr r"
      by (auto simp: m dest: spec [of _ 0])
    have a: "k' < length ms" using Cons.prems(1) Suc by simp
    have b: "\<forall>j<k'. \<exists>r. gen (Suc n + j) (promptText pm src (snd (ms ! j))) = Inr r"
    proof (intro allI impI)
      fix j assume "j < k'"
      then have "Suc j < k" using Suc by simp
      with Cons.prems(2) have "\<exists>r. gen (n + Suc j) (promptText pm src (snd ((m # ms) ! Suc j))) = Inr r"
        by blast
      then show "\<exists>r. gen (Suc n + j) (promptText pm src (snd (ms ! j))) = Inr r" by simp
    qed
    have c': "gen (Suc n + k') (promptText pm src (snd (ms ! k'))) = Inl msg"
      using Cons.prems(3) Suc by simp
    from Cons.IH [OF a b c'] show ?thesis
      by (simp add: m r Let_def Suc)
  qed
qed

lemma loop_completes_with:
  "length rs = length ms \<Longrightarrow>
   (\<forall>j<length ms. gen (n + j) (promptText pm src (snd (ms ! j))) = Inr (rs ! j)) \<Longrightarrow>
   summarize_loop gen pm src n c ms
     = (map (\<lambda>m. Gen (promptText pm src (snd m))) ms,
        Some (foldl (\<lambda>content mr. replace_first (fst (fst mr)) (summaryText (snd mr)) [] content)
                c (zip ms rs)))"
proof (induction ms arbitrary: n c rs)
  case Nil
  then show ?case by simp
next
  case (Cons m ms)
  obtain fullComment key where m: "m = (fullComment, key)" by (cases m)
  from Cons.prems(1) obtain r rs' where rs: "rs = r # rs'" by (cases rs) auto
  from Cons.prems(2) have r: "gen n (promptText pm src key) = Inr r"
    by (auto simp: m rs dest: spec [of _ 0])
  have l: "length rs' = length ms" using Cons.prems(1) rs by simp
  have b: "\<forall>j<length ms. gen (Suc n + j) (promptText pm src (snd (ms ! j))) = Inr (rs' ! j)"
  proof (intro allI impI)
    fix j assume "j < length ms"
    then have "Suc j < length (m # ms)" by simp
    with Cons.prems(2) have "gen (n + Suc j) (promptText pm src (snd ((m # ms) ! Suc j))) = Inr (rs ! Suc j)"
      by blast
    then show "gen (Suc n + j) (promptText pm src (snd (ms ! j))) = Inr (rs' ! j)"
      by (simp add: rs)
  qed
  from Cons.IH [OF l b, of "replace_first fullComment (summaryText r) [] c"]
  show ?case by (simp add: m r rs Let_def)
qed

lemma replace_note_two:
  "foldl (\<lambda>content mr. replace_first (fst (fst mr)) (summaryText (snd mr)) [] content) note_two
     (zip [(''<!-- summary -->'', ''summary''), (''<!--methods-->'', ''methods'')]
          [ResultString ''S'', ResultString ''M''])
     = ''SxM''"
  by (simp add: note_two_def)

text \<open>
  Claim C7. The invocation has matched keys and the Text Generator plugin. If the call
  for the \<open>k\<close>-th matched key is the first call that throws, the invocation calls the generator
  for the matched keys up to that one and for no later key, shows the error notice and ends: the
  note is not modified. If no call throws, the generator is called once for every matched key, in
  order, and then the note is modified once, before the closing notice; what is written is the
  note as read with the replacement of every matched key applied, in the order of the keys.
\<close>

theorem summary_all_or_nothing:
  "(keysToProcess cfg noteContent \<noteq> []
      \<and> k < length (validMatches cfg noteContent)
      \<and> (\<forall>j<k. \<exists>r. gen j (promptText (promptMap_of (summaryPrompts cfg)) srcContent
                             (snd (validMatches cfg noteContent ! j))) = Inr r)
      \<and> gen k (promptText (promptMap_of (summaryPrompts cfg)) srcContent
                 (snd (validMatches cfg noteContent ! k))) = Inl msg
    \<longrightarrow> processPdfAndSummarize cfg (Some gen) srcContent noteContent
          = Notice (NoticeSummaryStart (length (validMatches cfg noteContent)))
              # map (\<lambda>m. Gen (promptText (promptMap_of (summaryPrompts cfg)) srcContent (snd m)))
                  (take (Suc k) (validMatches cfg noteContent))
              @ [Notice (NoticeApiError msg)])
   \<and> (keysToProcess cfg noteContent \<noteq> []
        \<and> length rs = length (validMatches cfg noteContent)
        \<and> (\<forall>j<length (validMatches cfg noteContent).
              gen j (promptText (promptMap_of (summaryPrompts cfg)) srcContent
                       (snd (validMatches cfg noteContent ! j))) = Inr (rs ! j))
      \<longrightarrow> processPdfAndSummarize cfg (Some gen) srcContent noteContent
            = Notice (NoticeSummaryStart (length (validMatches cfg noteContent)))
                # map (\<lambda>m. Gen (promptText (promptMap_of (summaryPrompts cfg)) srcContent (snd m)))
                    (validMatches cfg noteContent)
                @ [Modify (foldl (\<lambda>content mr.
                                    replace_first (fst (fst mr)) (summaryText (snd mr)) [] content)
                             noteContent (zip (validMatches cfg noteContent) rs)),
                   Notice (NoticeSummaryDone (length (validMatches cfg noteContent)))])"
proof (intro conjI impI)
  assume a: "keysToProcess cfg noteContent \<noteq> []
      \<and> k < length (validMatches cfg noteContent)
      \<and> (\<forall>j<k. \<exists>r. gen j (promptText (promptMap_of (summaryPrompts cfg)) srcContent
                             (snd (validMatches cfg noteContent ! j))) = Inr r)
      \<and> gen k (promptText (promptMap_of (summaryPrompts cfg)) srcContent
                 (snd (validMatches cfg noteContent ! k))) = Inl msg"
  then have "summarize_loop gen (promptMap_of (summaryPrompts cfg)) srcContent 0 noteContent
               (validMatches cfg noteContent)
     = (map (\<lambda>m. Gen (promptText (promptMap_of (summaryPrompts cfg)) srcContent (snd m)))
          (take (Suc k) (validMatches cfg noteContent)) @ [Notice (NoticeApiError msg)], None)"
    by (intro loop_fails) simp_all
  with a show "processPdfAndSummarize cfg (Some gen) srcContent noteContent
          = Notice (NoticeSummaryStart (length (validMatches cfg noteContent)))
              # map (\<lambda>m. Gen (promptText (promptMap_of (summaryPrompts cfg)) srcContent (snd m)))
                  (take (Suc k) (validMatches cfg noteContent))
              @ [Notice (NoticeApiError msg)]"
    by (simp add: processPdfAndSummarize_def Let_def)
next
  assume a: "keysToProcess cfg noteContent \<noteq> []
        \<and> length rs = length (validMatches cfg noteContent)
        \<and> (\<forall>j<length (validMatches cfg noteContent).
              gen j (promptText (promptMap_of (summaryPrompts cfg)) srcContent
                       (snd (validMatches cfg noteContent ! j))) = Inr (rs ! j))"
  then have "summarize_loop gen (promptMap_of (summaryPrompts cfg)) srcContent 0 noteContent
               (validMatches cfg noteContent)
     = (map (\<lambda>m. Gen (promptText (promptMap_of (summaryPrompts cfg)) srcContent (snd m)))
          (validMatches cfg noteContent),
        Some (foldl (\<lambda>content mr. replace_first (fst (fst mr)) (summaryText (snd mr)) [] content)
                noteContent (zip (validMatches cfg noteContent) rs)))"
    by (intro loop_completes_with) simp_all
  with a show "processPdfAndSummarize cfg (Some gen) srcContent noteContent
            = Notice (NoticeSummaryStart (length (validMatches cfg noteContent)))
                # map (\<lambda>m. Gen (promptText (promptMap_of (summaryPrompts cfg)) srcContent (snd m)))
                    (validMatches cfg noteContent)
                @ [Modify (foldl (\<lambda>content mr.
                                    replace_first (fst (fst mr)) (summaryText (snd mr)) [] content)
                             noteContent (zip (validMatches cfg noteContent) rs)),
                   Notice (NoticeSummaryDone (length (validMatches cfg noteContent)))]"
    by (simp add: processPdfAndSummarize_def Let_def)
qed

text \<open>
  The note \<^verbatim>\<open><!-- summary -->x<!--methods-->\<close> with the comments of both prompts: a generator
  whose second call throws, and one whose calls return \<^verbatim>\<open>S\<close> and \<^verbatim>\<open>M\<close>, after which \<^verbatim>\<open>SxM\<close>
  is written.
\<close>

theorem summary_all_or_nothing_witness:
  "processPdfAndSummarize test_settings (Some gen_second_fails) ''SRC'' note_two
     = [Notice (NoticeSummaryStart 2),
        Gen (''Summarize.'' @ blank_line @ ''---'' @ blank_line @ ''SRC''),
        Gen (''Describe the methods.'' @ blank_line @ ''---'' @ blank_line @ ''SRC''),
        Notice (NoticeApiError ''boom'')]
   \<and> processPdfAndSummarize test_settings (Some gen_all_ok) ''SRC'' note_two
       = [Notice (NoticeSummaryStart 2),
          Gen (''Summarize.'' @ blank_line @ ''---'' @ blank_line @ ''SRC''),
          Gen (''Describe the methods.'' @ blank_line @ ''---'' @ blank_line @ ''SRC''),
          Modify ''SxM'', Notice (NoticeSummaryDone 2)]"
proof -
  have ne: "keysToProcess test_settings note_two \<noteq> []"
    by (simp add: keysToProcess_note_two)
  have k: "1 < length (validMatches test_settings note_two)"
    by (simp add: validMatches_note_two)
  have before: "\<forall>j<1. \<exists>r. gen_second_fails j
       (promptText (promptMap_of (summaryPrompts test_settings)) ''SRC''
          (snd (validMatches test_settings note_two ! j))) = Inr r"
    by (simp add: gen_second_fails_def)
  have fails: "gen_second_fails 1
       (promptText (promptMap_of (summaryPrompts test_settings)) ''SRC''
          (snd (validMatches test_settings note_two ! 1))) = Inl ''boom''"
    by (simp add: gen_second_fails_def)
  have len: "length [ResultString ''S'', ResultString ''M'']
               = length (validMatches test_settings note_two)"
    by (simp add: validMatches_note_two)
  have all_ok: "\<forall>j<length (validMatches test_settings note_two). gen_all_ok j
       (promptText (promptMap_of (summaryPrompts test_settings)) ''SRC''
          (snd (validMatches test_settings note_two ! j)))
       = Inr ([ResultString ''S'', ResultString ''M''] ! j)"
    by (simp add: gen_all_ok_def validMatches_note_two less_Suc_eq numeral_2_eq_2)
  from summary_all_or_nothing [where cfg = test_settings and noteContent = note_two and k = 1
      and gen = gen_second_fails and srcContent = "''SRC''" and msg = "''boom''"]
    ne k before fails
  have "processPdfAndSummarize test_settings (Some gen_second_fails) ''SRC'' note_two
          = Notice (NoticeSummaryStart (length (validMatches test_settings note_two)))
              # map (\<lambda>m. Gen (promptText (promptMap_of (summaryPrompts test_settings)) ''SRC'' (snd m)))
                  (take (Suc 1) (validMatches test_settings note_two))
              @ [Notice (NoticeApiError ''boom'')]"
    by blast
  then have c1: "processPdfAndSummarize test_settings (Some gen_second_fails) ''SRC'' note_two
     = [Notice (NoticeSummaryStart 2),
        Gen (''Summarize.'' @ blank_line @ ''---'' @ blank_line @ ''SRC''),
        Gen (''Describe the methods.'' @ blank_line @ ''---'' @ blank_line @ ''SRC''),
        Notice (NoticeApiError ''boom'')]"
    by (simp add: validMatches_note_two promptText_summary promptText_methods)
  from summary_all_or_nothing [where cfg = test_settings and noteContent = note_two
      and gen = gen_all_ok and srcContent = "''SRC''"
      and rs = "[ResultString ''S'', ResultString ''M'']"]
    ne len all_ok
  have "processPdfAndSummarize test_settings (Some gen_all_ok) ''SRC'' note_two
            = Notice (NoticeSummaryStart (length (validMatches test_settings note_two)))
                # map (\<lambda>m. Gen (promptText (promptMap_of (summaryPrompts test_settings)) ''SRC'' (snd m)))
                    (validMatches test_settings note_two)
                @ [Modify (foldl (\<lambda>content mr.
                                    replace_first (fst (fst mr)) (summaryText (snd mr)) [] content)
                             note_two (zip (validMatches test_settings note_two)
                                           [ResultString ''S'', ResultString ''M''])),
                   Notice (NoticeSummaryDone (length (validMatches test_settings note_two)))]"
    by blast
  then have c2: "processPdfAndSummarize test_settings (Some gen_all_ok) ''SRC'' note_two
       = [Notice (NoticeSummaryStart 2),
          Gen (''Summarize.'' @ blank_line @ ''---'' @ blank_line @ ''SRC''),
          Gen (''Describe the methods.'' @ blank_line @ ''---'' @ blank_line @ ''SRC''),
          Modify ''SxM'', Notice (NoticeSummaryDone 2)]"
    unfolding validMatches_note_two replace_note_two
    by (simp add: promptText_summary promptText_methods)
  from c1 c2 show ?thesis by blast
qed

section \<open>The replacement of a comment\<close>

lemma replace_first_at:
  "(\<forall>i<length pre. \<not> prefix pat (drop i (pre @ pat @ post))) \<Longrightarrow>
   replace_first pat rep seen (pre @ pat @ post)
     = pre @ GetSubstitution pat (seen @ pre) post rep @ post"
proof (induction pre arbitrary: seen)
  case Nil
  show ?case
  proof (cases "pat @ post")
    case Nil
    then show ?thesis by simp
  next
    case (Cons a list)
    have p: "prefix pat (a # list)" unfolding Cons [symmetric] by simp
    have d: "drop (length pat) (a # list) = post" unfolding Cons [symmetric] by simp
    have "replace_first pat rep seen (a # list) = GetSubstitution pat seen post rep @ post"
      using p d by simp
    then show ?thesis by (simp add: Cons)
  qed
next
  case (Cons c pre)
  from Cons.prems have np: "\<not> prefix pat ((c # pre) @ pat @ post)"
    by (auto dest: spec [of _ 0])
  have "\<forall>i<length pre. \<not> prefix pat (drop i (pre @ pat @ post))"
  proof (intro allI impI)
    fix i assume "i < length pre"
    then have "Suc i < length (c # pre)" by simp
    with Cons.prems have "\<not> prefix pat (drop (Suc i) ((c # pre) @ pat @ post))" by blast
    then show "\<not> prefix pat (drop i (pre @ pat @ post))" by simp
  qed
  from Cons.IH [OF this, of "seen @ [c]"] np show ?case by simp
qed

lemma replace_first_absent:
  "(\<forall>i\<le>length s. \<not> prefix pat (drop i s)) \<Longrightarrow> replace_first pat rep seen s = s"
proof (induction s arbitrary: seen)
  case Nil
  then show ?case by auto
next
  case (Cons c s)
  from Cons.prems have np: "\<not> prefix pat (c # s)" by (auto dest: spec [of _ 0])
  have "\<forall>i\<le>length s. \<not> prefix pat (drop i s)"
  proof (intro allI impI)
    fix i assume "i \<le> length s"
    then have "Suc i \<le> length (c # s)" by simp
    with Cons.prems have "\<not> prefix pat (drop (Suc i) (c # s))" by blast
    then show "\<not> prefix pat (drop i s)" by simp
  qed
  from Cons.IH [OF this] np show ?case by simp
qed

text \<open>
  The text of a match is a piece of the note: the comment text of every matched key occurs
  in the note as it was read.
\<close>

lemma comment_close_suffix:
  "comment_close cs = Some rest \<Longrightarrow> suffix rest cs"
proof -
  assume a: "comment_close cs = Some rest"
  then have "rest = drop 3 (dropWhile is_white_space cs)"
    by (auto simp: comment_close_def Let_def split: if_splits)
  then show ?thesis
    by (metis suffix_drop suffix_dropWhile suffix_order.trans)
qed

lemma lazy_comment_body_suffix:
  "lazy_comment_body acc cs = Some (k, rest) \<Longrightarrow> suffix rest cs"
proof (induction cs arbitrary: acc)
  case Nil
  then show ?case by (auto split: option.splits dest: comment_close_suffix)
next
  case (Cons c cs)
  then show ?case
    by (fastforce split: option.splits dest: comment_close_suffix simp: suffix_Cons)
qed

lemma match_comment_suffix:
  "match_comment cs = Some (k, rest) \<Longrightarrow> suffix rest cs"
proof -
  assume "match_comment cs = Some (k, rest)"
  then have "lazy_comment_body [] (dropWhile is_white_space (drop 4 cs)) = Some (k, rest)"
    by (simp add: match_comment_def split: if_splits)
  then have "suffix rest (dropWhile is_white_space (drop 4 cs))"
    by (rule lazy_comment_body_suffix)
  then show ?thesis
    by (metis suffix_drop suffix_dropWhile suffix_order.trans)
qed

lemma comment_matches_occur:
  "(m0, m1) \<in> set (comment_matches s) \<Longrightarrow> \<exists>pre post. s = pre @ m0 @ post"
proof (induction s rule: comment_matches.induct)
  case 1
  then show ?case by simp
next
  case (2 c cs)
  show ?case
  proof (cases "match_comment (c # cs)")
    case None
    with "2.prems" have "(m0, m1) \<in> set (comment_matches cs)" by simp
    with "2.IH"(1) [OF None] obtain pre post where "cs = pre @ m0 @ post" by blast
    then have "c # cs = (c # pre) @ m0 @ post" by simp
    then show ?thesis by blast
  next
    case (Some kr)
    obtain k rest where kr: "kr = (k, rest)" by (cases kr)
    from Some kr have "suffix rest (c # cs)" by (auto dest: match_comment_suffix)
    then obtain p where p: "c # cs = p @ rest" by (auto simp: suffix_def)
    then have tk: "take (length (c # cs) - length rest) (c # cs) = p"
      by (metis add_diff_cancel_right' append_eq_conv_conj length_append)
    from "2.prems" Some kr tk
    consider "m0 = p" | "(m0, m1) \<in> set (comment_matches rest)" by auto
    then show ?thesis
    proof cases
      case 1
      with p have "c # cs = [] @ m0 @ rest" by simp
      then show ?thesis by blast
    next
      case 2
      from "2.IH"(2) [OF Some kr [symmetric] 2] obtain pre post where "rest = pre @ m0 @ post"
        by blast
      with p have "c # cs = (p @ pre) @ m0 @ post" by simp
      then show ?thesis by blast
    qed
  qed
qed

lemma validMatches_occur:
  assumes "(fullComment, key) \<in> set (validMatches cfg noteContent)"
  shows "\<exists>pre post. noteContent = pre @ fullComment @ post"
proof -
  from assms obtain key' m
    where f: "List.find (\<lambda>m. trim (snd m) = key') (comment_matches noteContent) = Some m"
      and fc: "fullComment = fst m"
    by (auto simp: validMatches_def split: option.splits) (metis fst_conv)
  from f have "m \<in> set (comment_matches noteContent)"
    by (auto simp: find_Some_iff)
  with fc have "(fullComment, snd m) \<in> set (comment_matches noteContent)" by simp
  then show ?thesis by (rule comment_matches_occur)
qed

lemma first_occurrence_or_absent:
  "(\<exists>pre post. s = pre @ pat @ post \<and> (\<forall>i<length pre. \<not> prefix pat (drop i s)))
   \<or> (\<forall>i\<le>length s. \<not> prefix pat (drop i s))"
proof (induction s)
  case Nil
  show ?case by (cases pat) auto
next
  case (Cons c s)
  show ?case
  proof (cases "prefix pat (c # s)")
    case True
    then obtain post where "c # s = pat @ post" by (auto simp: prefix_def)
    then show ?thesis by (intro disjI1 exI [of _ "[]"] exI [of _ post]) simp
  next
    case False
    from Cons.IH show ?thesis
    proof
      assume "\<exists>pre post. s = pre @ pat @ post \<and> (\<forall>i<length pre. \<not> prefix pat (drop i s))"
      then obtain pre post where s: "s = pre @ pat @ post"
        and f: "\<forall>i<length pre. \<not> prefix pat (drop i s)" by blast
      have "\<forall>i<length (c # pre). \<not> prefix pat (drop i (c # s))"
      proof (intro allI impI)
        fix i assume i: "i < length (c # pre)"
        show "\<not> prefix pat (drop i (c # s))"
        proof (cases i)
          case 0
          with False show ?thesis by simp
        next
          case (Suc j)
          with i f show ?thesis by simp
        qed
      qed
      moreover from s have "c # s = (c # pre) @ pat @ post" by simp
      ultimately show ?thesis by blast
    next
      assume a: "\<forall>i\<le>length s. \<not> prefix pat (drop i s)"
      have "\<forall>i\<le>length (c # s). \<not> prefix pat (drop i (c # s))"
      proof (intro allI impI)
        fix i assume i: "i \<le> length (c # s)"
        show "\<not> prefix pat (drop i (c # s))"
        proof (cases i)
          case 0
          with False show ?thesis by simp
        next
          case (Suc j)
          with i a show ?thesis by simp
        qed
      qed
      then show ?thesis by blast
    qed
  qed
qed

lemma comment_matches_note_nested:
  "comment_matches note_nested = [(''<!--c<!--d-->'', ''c<!--d''), (''<!--d-->'', ''d'')]"
  by (simp add: note_nested_def match_comment_def comment_close_def is_white_space_def)

lemma trim_nested_keys:
  "trim ''c<!--d'' = ''c<!--d''" "trim ''d'' = ''d''"
  by (simp_all add: trim_def is_white_space_def)

lemma promptMap_nested_settings:
  "promptMap_of (summaryPrompts nested_settings) = [(''d'', ''P''), (''c<!--d'', ''Q'')]"
  by (simp add: promptMap_of_def nested_settings_def test_settings_def)

lemma object_keys_nested_settings:
  "object_keys (promptMap_of (summaryPrompts nested_settings)) = [''d'', ''c<!--d'']"
  by (simp add: promptMap_nested_settings object_keys_def is_array_index_def is_digit_def)

lemma keysToProcess_note_nested:
  "keysToProcess nested_settings note_nested = [''d'', ''c<!--d'']"
  by (simp add: keysToProcess_def keysInNote_def comment_matches_note_nested trim_nested_keys
        object_keys_nested_settings)

lemma validMatches_note_nested:
  "validMatches nested_settings note_nested
     = [(''<!--d-->'', ''d''), (''<!--c<!--d-->'', ''c<!--d'')]"
  by (simp add: validMatches_def keysToProcess_note_nested comment_matches_note_nested
        trim_nested_keys)

lemma replace_nested_first:
  "replace_first ''<!--d-->'' ''X'' [] note_nested = ''<!--cX<!--d-->''"
  by (simp add: note_nested_def)

lemma replace_nested_second:
  "replace_first ''<!--c<!--d-->'' ''Y'' [] ''<!--cX<!--d-->'' = ''<!--cX<!--d-->''"
  by simp

lemma loop_nested:
  "summarize_loop gen_x_y pm src 0 note_nested
       [(''<!--d-->'', ''d''), (''<!--c<!--d-->'', ''c<!--d'')]
     = ([Gen (promptText pm src ''d''), Gen (promptText pm src ''c<!--d'')],
        Some ''<!--cX<!--d-->'')"
  by (simp add: gen_x_y_def Let_def replace_nested_first replace_nested_second
        del: replace_first.simps)

lemma too_long_to_occur:
  "length s < length pat \<Longrightarrow> \<forall>i\<le>length s. \<not> prefix pat (drop i s)"
proof (intro allI impI notI)
  fix i assume "length s < length pat" and "prefix pat (drop i s)"
  then have "length pat \<le> length (drop i s)" by (auto dest: prefix_length_le)
  with \<open>length s < length pat\<close> show False by simp
qed

text \<open>
  Claim C10, as amended. A round of the loop whose call of the generator returns hands
  on the note content after \<^verbatim>\<open>noteContent.replace(fullComment, summaryText)\<close>. The comment text
  of the round either occurs in the content of that round or does not. Where it occurs (\<open>pre\<close>
  is what stands before its first occurrence, \<open>post\<close> what stands after it), that first
  occurrence is replaced and everything else is as it was; the text put in its place is what
  JavaScript builds from the generated text as a replacement pattern: the generated text itself
  when it holds no dollar sign, but the comment text again when the generated text is \<^verbatim>\<open>$&\<close>.
  Where it does not occur, because the replacement of an earlier round has rewritten it, the
  content stays as it is and the generated text is put nowhere. In the note as read the comment
  text of every matched key occurs, so the replacement of the first round always takes place.
\<close>

theorem marker_replacement:
  assumes "gen n (promptText pm src key) = Inr result"
  shows "summarize_loop gen pm src n noteContent ((fullComment, key) # ms)
           = (Gen (promptText pm src key)
                # fst (summarize_loop gen pm src (Suc n)
                         (replace_first fullComment (summaryText result) [] noteContent) ms),
              snd (summarize_loop gen pm src (Suc n)
                     (replace_first fullComment (summaryText result) [] noteContent) ms))
         \<and> ((\<exists>pre post. noteContent = pre @ fullComment @ post
                \<and> (\<forall>i<length pre. \<not> prefix fullComment (drop i noteContent)))
              \<or> (\<forall>i\<le>length noteContent. \<not> prefix fullComment (drop i noteContent)))
         \<and> (noteContent = pre @ fullComment @ post
               \<and> (\<forall>i<length pre. \<not> prefix fullComment (drop i noteContent)) \<longrightarrow>
             replace_first fullComment (summaryText result) [] noteContent
               = pre @ GetSubstitution fullComment pre post (summaryText result) @ post)
         \<and> ((\<forall>i\<le>length noteContent. \<not> prefix fullComment (drop i noteContent)) \<longrightarrow>
             replace_first fullComment (summaryText result) [] noteContent = noteContent)
         \<and> (CHR ''$'' \<notin> set (summaryText result) \<longrightarrow>
               GetSubstitution fullComment pre post (summaryText result) = summaryText result)
         \<and> (summaryText result = ''$&'' \<longrightarrow>
               GetSubstitution fullComment pre post (summaryText result) = fullComment)
         \<and> ((fullComment, key) \<in> set (validMatches cfg noteAsRead) \<longrightarrow>
               (\<exists>pre post. noteAsRead = pre @ fullComment @ post))"
proof -
  have step: "summarize_loop gen pm src n noteContent ((fullComment, key) # ms)
           = (Gen (promptText pm src key)
                # fst (summarize_loop gen pm src (Suc n)
                         (replace_first fullComment (summaryText result) [] noteContent) ms),
              snd (summarize_loop gen pm src (Suc n)
                     (replace_first fullComment (summaryText result) [] noteContent) ms))"
    using assms by (simp add: Let_def del: replace_first.simps)
  have occurs: "replace_first fullComment (summaryText result) [] noteContent
               = pre @ GetSubstitution fullComment pre post (summaryText result) @ post"
    if "noteContent = pre @ fullComment @ post"
      and "\<forall>i<length pre. \<not> prefix fullComment (drop i noteContent)"
    using replace_first_at [of pre fullComment post "summaryText result" "[]"] that by simp
  have absent: "replace_first fullComment (summaryText result) [] noteContent = noteContent"
    if "\<forall>i\<le>length noteContent. \<not> prefix fullComment (drop i noteContent)"
    using that by (rule replace_first_absent)
  have verbatim: "GetSubstitution fullComment pre post (summaryText result) = summaryText result"
    if "CHR ''$'' \<notin> set (summaryText result)"
    using that by (rule GetSubstitution_no_dollar)
  have amp: "GetSubstitution fullComment pre post (summaryText result) = fullComment"
    if "summaryText result = ''$&''"
    using that by simp
  from step first_occurrence_or_absent [of noteContent fullComment] occurs absent verbatim amp
    validMatches_occur [of fullComment key cfg noteAsRead]
  show ?thesis by blast
qed

text \<open>
  The note \<^verbatim>\<open>a<!--k-->b<!--k-->\<close> and the comment \<^verbatim>\<open><!--k-->\<close>: the generated text \<^verbatim>\<open>T\<close> replaces
  the first comment, the generated text \<^verbatim>\<open>$&\<close> leaves the note as it was. The note \<^verbatim>\<open>ab\<close> does
  not hold the comment and stays as it is. The note \<^verbatim>\<open><!-- summary -->x<!--methods-->\<close>, as
  read, holds the comment of its key \<^verbatim>\<open>methods\<close>.
\<close>

theorem marker_replacement_witness:
  "summarize_loop (gen_text ''T'') [] ''SRC'' 0 ''a<!--k-->b<!--k-->'' [(''<!--k-->'', ''k'')]
     = ([Gen (promptText [] ''SRC'' ''k'')], Some ''aTb<!--k-->'')
   \<and> summarize_loop (gen_text ''$&'') [] ''SRC'' 0 ''a<!--k-->b<!--k-->'' [(''<!--k-->'', ''k'')]
     = ([Gen (promptText [] ''SRC'' ''k'')], Some ''a<!--k-->b<!--k-->'')
   \<and> summarize_loop (gen_text ''T'') [] ''SRC'' 0 ''ab'' [(''<!--k-->'', ''k'')]
     = ([Gen (promptText [] ''SRC'' ''k'')], Some ''ab'')
   \<and> (''<!--methods-->'', ''methods'') \<in> set (validMatches test_settings note_two)
   \<and> (\<exists>pre post. note_two = pre @ ''<!--methods-->'' @ post)"
proof -
  have split: "''a<!--k-->b<!--k-->'' = ''a'' @ ''<!--k-->'' @ ''b<!--k-->''" by simp
  have first: "\<forall>i<length ''a''. \<not> prefix ''<!--k-->'' (drop i ''a<!--k-->b<!--k-->'')" by simp
  have none: "\<forall>i\<le>length ''ab''. \<not> prefix ''<!--k-->'' (drop i ''ab'')"
    by (rule too_long_to_occur) simp
  have g1: "gen_text ''T'' 0 (promptText [] ''SRC'' ''k'') = Inr (ResultString ''T'')"
    by (simp add: gen_text_def)
  have g2: "gen_text ''$&'' 0 (promptText [] ''SRC'' ''k'') = Inr (ResultString ''$&'')"
    by (simp add: gen_text_def)
  have nd: "CHR ''$'' \<notin> set (summaryText (ResultString ''T''))" by simp
  have amp: "summaryText (ResultString ''$&'') = ''$&''" by simp
  have stop: "summarize_loop g [] ''SRC'' (Suc 0) c [] = ([], Some c)" for g c by simp
  note i1 = marker_replacement [where gen = "gen_text ''T''" and n = 0 and pm = "[]"
      and src = "''SRC''" and key = "''k''" and result = "ResultString ''T''"
      and noteContent = "''a<!--k-->b<!--k-->''" and pre = "''a''" and fullComment = "''<!--k-->''"
      and post = "''b<!--k-->''" and ms = "[]", OF g1]
  from i1 split first have r1: "replace_first ''<!--k-->'' (summaryText (ResultString ''T'')) []
        ''a<!--k-->b<!--k-->''
      = ''a'' @ GetSubstitution ''<!--k-->'' ''a'' ''b<!--k-->'' (summaryText (ResultString ''T''))
          @ ''b<!--k-->''"
    by blast
  from i1 nd have s1: "GetSubstitution ''<!--k-->'' ''a'' ''b<!--k-->'' (summaryText (ResultString ''T''))
      = summaryText (ResultString ''T'')"
    by blast
  from i1 have "summarize_loop (gen_text ''T'') [] ''SRC'' 0 ''a<!--k-->b<!--k-->'' [(''<!--k-->'', ''k'')]
     = (Gen (promptText [] ''SRC'' ''k'')
          # fst (summarize_loop (gen_text ''T'') [] ''SRC'' (Suc 0)
                   (replace_first ''<!--k-->'' (summaryText (ResultString ''T'')) []
                      ''a<!--k-->b<!--k-->'') []),
        snd (summarize_loop (gen_text ''T'') [] ''SRC'' (Suc 0)
               (replace_first ''<!--k-->'' (summaryText (ResultString ''T'')) []
                  ''a<!--k-->b<!--k-->'') []))"
    by blast
  then have c1: "summarize_loop (gen_text ''T'') [] ''SRC'' 0 ''a<!--k-->b<!--k-->'' [(''<!--k-->'', ''k'')]
     = ([Gen (promptText [] ''SRC'' ''k'')], Some ''aTb<!--k-->'')"
    unfolding r1 s1 stop by simp
  note i2 = marker_replacement [where gen = "gen_text ''$&''" and n = 0 and pm = "[]"
      and src = "''SRC''" and key = "''k''" and result = "ResultString ''$&''"
      and noteContent = "''a<!--k-->b<!--k-->''" and pre = "''a''" and fullComment = "''<!--k-->''"
      and post = "''b<!--k-->''" and ms = "[]", OF g2]
  from i2 split first have r2: "replace_first ''<!--k-->'' (summaryText (ResultString ''$&'')) []
        ''a<!--k-->b<!--k-->''
      = ''a'' @ GetSubstitution ''<!--k-->'' ''a'' ''b<!--k-->'' (summaryText (ResultString ''$&''))
          @ ''b<!--k-->''"
    by blast
  from i2 amp have s2: "GetSubstitution ''<!--k-->'' ''a'' ''b<!--k-->'' (summaryText (ResultString ''$&''))
      = ''<!--k-->''"
    by blast
  from i2 have "summarize_loop (gen_text ''$&'') [] ''SRC'' 0 ''a<!--k-->b<!--k-->'' [(''<!--k-->'', ''k'')]
     = (Gen (promptText [] ''SRC'' ''k'')
          # fst (summarize_loop (gen_text ''$&'') [] ''SRC'' (Suc 0)
                   (replace_first ''<!--k-->'' (summaryText (ResultString ''$&'')) []
                      ''a<!--k-->b<!--k-->'') []),
        snd (summarize_loop (gen_text ''$&'') [] ''SRC'' (Suc 0)
               (replace_first ''<!--k-->'' (summaryText (ResultString ''$&'')) []
                  ''a<!--k-->b<!--k-->'') []))"
    by blast
  then have c2: "summarize_loop (gen_text ''$&'') [] ''SRC'' 0 ''a<!--k-->b<!--k-->'' [(''<!--k-->'', ''k'')]
     = ([Gen (promptText [] ''SRC'' ''k'')], Some ''a<!--k-->b<!--k-->'')"
    unfolding r2 s2 stop by simp
  note i3 = marker_replacement [where gen = "gen_text ''T''" and n = 0 and pm = "[]"
      and src = "''SRC''" and key = "''k''" and result = "ResultString ''T''"
      and noteContent = "''ab''" and fullComment = "''<!--k-->''" and ms = "[]", OF g1]
  from i3 none have r3: "replace_first ''<!--k-->'' (summaryText (ResultString ''T'')) [] ''ab'' = ''ab''"
    by blast
  from i3 have "summarize_loop (gen_text ''T'') [] ''SRC'' 0 ''ab'' [(''<!--k-->'', ''k'')]
     = (Gen (promptText [] ''SRC'' ''k'')
          # fst (summarize_loop (gen_text ''T'') [] ''SRC'' (Suc 0)
                   (replace_first ''<!--k-->'' (summaryText (ResultString ''T'')) [] ''ab'') []),
        snd (summarize_loop (gen_text ''T'') [] ''SRC'' (Suc 0)
               (replace_first ''<!--k-->'' (summaryText (ResultString ''T'')) [] ''ab'') []))"
    by blast
  then have c3: "summarize_loop (gen_text ''T'') [] ''SRC'' 0 ''ab'' [(''<!--k-->'', ''k'')]
     = ([Gen (promptText [] ''SRC'' ''k'')], Some ''ab'')"
    unfolding r3 stop by simp
  have g4: "gen_text ''T'' 0 (promptText [] ''SRC'' ''methods'') = Inr (ResultString ''T'')"
    by (simp add: gen_text_def)
  have read: "(''<!--methods-->'', ''methods'') \<in> set (validMatches test_settings note_two)"
    by (simp add: validMatches_note_two)
  note i4 = marker_replacement [where gen = "gen_text ''T''" and n = 0 and pm = "[]"
      and src = "''SRC''" and key = "''methods''" and result = "ResultString ''T''"
      and fullComment = "''<!--methods-->''" and cfg = test_settings and noteAsRead = note_two,
      OF g4]
  from i4 read have c4: "\<exists>pre post. note_two = pre @ ''<!--methods-->'' @ post"
    by blast
  from c1 c2 c3 read c4 show ?thesis by blast
qed

text \<open>
  The prompts \<^verbatim>\<open>d\<close> and \<^verbatim>\<open>c<!--d\<close> and the note \<^verbatim>\<open><!--c<!--d--><!--d-->\<close>: both keys are
  processed. The round of \<^verbatim>\<open>d\<close> replaces the first occurrence of \<^verbatim>\<open><!--d-->\<close>, which lies in
  the other comment; the round of \<^verbatim>\<open>c<!--d\<close> then finds its comment text nowhere, and its
  generated text \<^verbatim>\<open>Y\<close> is not in the note that is written.
\<close>

theorem marker_replacement_counterexample:
  "processPdfAndSummarize nested_settings (Some gen_x_y) ''SRC'' note_nested
     = [Notice (NoticeSummaryStart 2),
        Gen (''P'' @ blank_line @ ''---'' @ blank_line @ ''SRC''),
        Gen (''Q'' @ blank_line @ ''---'' @ blank_line @ ''SRC''),
        Modify ''<!--cX<!--d-->'', Notice (NoticeSummaryDone 2)]
   \<and> replace_first ''<!--c<!--d-->'' ''Y'' [] ''<!--cX<!--d-->'' = ''<!--cX<!--d-->''
   \<and> CHR ''Y'' \<notin> set ''<!--cX<!--d-->''"
proof -
  have p1: "promptText (promptMap_of (summaryPrompts nested_settings)) ''SRC'' ''d''
              = ''P'' @ blank_line @ ''---'' @ blank_line @ ''SRC''"
    by (simp add: promptText_def promptMap_nested_settings)
  have p2: "promptText (promptMap_of (summaryPrompts nested_settings)) ''SRC'' ''c<!--d''
              = ''Q'' @ blank_line @ ''---'' @ blank_line @ ''SRC''"
    by (simp add: promptText_def promptMap_nested_settings)
  have ne: "keysToProcess nested_settings note_nested \<noteq> []"
    by (simp add: keysToProcess_note_nested)
  have "processPdfAndSummarize nested_settings (Some gen_x_y) ''SRC'' note_nested
     = [Notice (NoticeSummaryStart 2),
        Gen (''P'' @ blank_line @ ''---'' @ blank_line @ ''SRC''),
        Gen (''Q'' @ blank_line @ ''---'' @ blank_line @ ''SRC''),
        Modify ''<!--cX<!--d-->'', Notice (NoticeSummaryDone 2)]"
    using ne
    by (simp add: processPdfAndSummarize_def Let_def validMatches_note_nested loop_nested p1 p2
          del: summarize_loop.simps)
  then show ?thesis
    using replace_nested_second by simp
qed

end
